theory Spec2Isabelle
  imports Main "HOL-Library.AList" "HOL-Library.Sublist"
begin

section \<open>Regular expressions of the reader\<close>

text \<open>
  The reader (\<open>packages/snowboard-reader/src/index.js\<close>) works on text with a fixed set
  of JavaScript regular expressions. Every one of them is a sequence of literal
  characters, the wildcard \<open>.\<close>, the optional blank \<open>\s?\<close> and the capture groups
  \<open>(.+)\<close> and \<open>([0-9]+)\<close>. Texts are lists of code units; the code units modelled are
  those below 256, for which \<open>\s\<close> and the line terminators are listed below.
\<close>

datatype cls = Dot | Digit

datatype item = L char | AnyCh | OptS | G cls

type_synonym regex = "item list"

definition lineTerminator :: "char \<Rightarrow> bool" where
  "lineTerminator c = (c = CHR 0x0A \<or> c = CHR 0x0D)"

definition isSpace :: "char \<Rightarrow> bool" where
  "isSpace c = (c \<in> set [CHR 0x09, CHR 0x0A, CHR 0x0B, CHR 0x0C, CHR 0x0D, CHR 0x20, CHR 0xA0])"

fun inCls :: "cls \<Rightarrow> char \<Rightarrow> bool" where
  "inCls Dot c = (\<not> lineTerminator c)"
| "inCls Digit c = (c \<in> set ''0123456789'')"

text \<open>
  Greedy \<open>+\<close> over a character class: take one character of the class, then first try
  to take more, and only when that fails hand the capture to the rest of the pattern.
\<close>

fun gplus :: "(char \<Rightarrow> bool) \<Rightarrow> (string \<Rightarrow> string \<Rightarrow> 'a option) \<Rightarrow> string \<Rightarrow> string \<Rightarrow> 'a option" where
  "gplus p k acc [] = None"
| "gplus p k acc (x # xs) =
     (if p x
      then (case gplus p k (acc @ [x]) xs of Some y \<Rightarrow> Some y | None \<Rightarrow> k (acc @ [x]) xs)
      else None)"

text \<open>
  Backtracking match of a pattern at the start of a text: the captures so far are
  threaded through, the result is the captures and the unconsumed rest.
\<close>

fun rmatch :: "regex \<Rightarrow> string \<Rightarrow> string list \<Rightarrow> (string list \<times> string) option" where
  "rmatch [] s caps = Some (caps, s)"
| "rmatch (L c # r) s caps =
     (case s of [] \<Rightarrow> None | x # xs \<Rightarrow> if x = c then rmatch r xs caps else None)"
| "rmatch (AnyCh # r) s caps =
     (case s of [] \<Rightarrow> None | x # xs \<Rightarrow> if lineTerminator x then None else rmatch r xs caps)"
| "rmatch (OptS # r) s caps =
     (case s of
        [] \<Rightarrow> rmatch r [] caps
      | x # xs \<Rightarrow>
          if isSpace x
          then (case rmatch r xs caps of Some y \<Rightarrow> Some y | None \<Rightarrow> rmatch r s caps)
          else rmatch r s caps)"
| "rmatch (G k # r) s caps = gplus (inCls k) (\<lambda>cap rest. rmatch r rest (caps @ [cap])) [] s"

definition lit :: "string \<Rightarrow> regex" where
  "lit s = map L s"

text \<open>The replacement string of \<open>String.prototype.replace\<close>: \<open>$n\<close> stands for group n.\<close>

definition groupIndex :: "char \<Rightarrow> nat" where
  "groupIndex d = length (takeWhile (\<lambda>c. c \<noteq> d) ''123456789'') + 1"

fun expandRepl :: "string \<Rightarrow> string list \<Rightarrow> string" where
  "expandRepl [] caps = []"
| "expandRepl [c] caps = [c]"
| "expandRepl (c # d # rest) caps =
     (if c = CHR ''$'' \<and> d \<in> set ''123456789'' \<and> groupIndex d \<le> length caps
      then caps ! (groupIndex d - 1) @ expandRepl rest caps
      else c # expandRepl (d # rest) caps)"

text \<open>
  \<open>str.replace(re, repl)\<close> with the \<open>g\<close> flag: scan left to right, replace each match
  and continue after it. After an empty match the scan moves on by one character.
\<close>

function replaceAll :: "regex \<Rightarrow> string \<Rightarrow> string \<Rightarrow> string" where
  "replaceAll re repl [] =
     (case rmatch re [] [] of Some (caps, rest) \<Rightarrow> expandRepl repl caps | None \<Rightarrow> [])"
| "replaceAll re repl (x # xs) =
     (case rmatch re (x # xs) [] of
        None \<Rightarrow> x # replaceAll re repl xs
      | Some (caps, rest) \<Rightarrow>
          if length rest < length (x # xs) then expandRepl repl caps @ replaceAll re repl rest
          else expandRepl repl caps @ x # replaceAll re repl xs)"
  by pat_completeness auto
termination
  by (relation "measure (\<lambda>(re, repl, s). length s)") auto

text \<open>
  \<open>matchAll\<close>: the loop \<open>while ((match = regex.exec(str)) != null) matches.push(match)\<close>.
  A match is kept as the list of its groups. An empty match would make the JavaScript
  loop spin on the same index; the two patterns it is called with start with a literal,
  so a match is never empty, and the model stops there.
\<close>

function matchAll :: "string \<Rightarrow> regex \<Rightarrow> string list list" where
  "matchAll [] re = []"
| "matchAll (x # xs) re =
     (case rmatch re (x # xs) [] of
        None \<Rightarrow> matchAll xs re
      | Some (caps, rest) \<Rightarrow>
          if length rest < length (x # xs) then caps # matchAll rest re else [])"
  by pat_completeness auto
termination
  by (relation "measure (\<lambda>(s, re). length s)") auto

text \<open>\<open>item[1]\<close> of a match: its first group.\<close>

fun group1 :: "string list \<Rightarrow> string" where
  "group1 [] = []"
| "group1 (g # gs) = g"

section \<open>The syntax normalizer\<close>

definition partialRegex :: regex where
  "partialRegex = lit ''{{> '' @ [G Dot] @ lit ''}}''"

definition seedRegex :: regex where
  "seedRegex = lit ''<!-- seed('' @ [G Dot] @ lit '') -->''"

definition commentPartial :: regex where
  "commentPartial = lit ''<!-- partial('' @ [G Dot] @ lit '') -->''"

definition commentInclude :: regex where
  "commentInclude = lit ''<!-- include('' @ [G Dot] @ lit '') -->''"

definition helperPartial :: regex where
  \<open>helperPartial = lit ''{{'' @ [OptS] @ lit ''partial "'' @ [G Dot] @ lit ''"'' @ [OptS] @ lit ''}}''\<close>

definition helperInclude :: regex where
  \<open>helperInclude = lit ''{{'' @ [OptS] @ lit ''include "'' @ [G Dot] @ lit ''"'' @ [OptS] @ lit ''}}''\<close>

definition helperSeed :: regex where
  \<open>helperSeed = lit ''{{'' @ [OptS] @ lit ''seed "'' @ [G Dot] @ lit ''"'' @ [OptS] @ lit ''}}''\<close>

definition withIndex :: regex where
  \<open>withIndex = lit ''{{with index .'' @ [G Dot] @ lit '' "'' @ [G Digit] @ lit ''"}}''\<close>

definition withIndex2 :: regex where
  "withIndex2 = withIndex @ withIndex @ [OptS] @ lit ''{{.'' @ [G Dot] @ lit ''}}'' @ [OptS]
     @ lit ''{{end}}{{end}}''"

definition withIndex1 :: regex where
  "withIndex1 = withIndex @ [OptS] @ lit ''{{.'' @ [G Dot] @ lit ''}}'' @ [OptS] @ lit ''{{end}}''"

definition withIndexJoin :: regex where
  \<open>withIndexJoin = withIndex @ [OptS] @ lit ''{{join .'' @ [G Dot] @ lit '' ",'' @ [OptS]
     @ lit ''"}}'' @ [OptS] @ lit ''{{end}}''\<close>

definition joinSep :: regex where
  \<open>joinSep = lit ''{{join '' @ [AnyCh, G Dot] @ lit '' ",'' @ [OptS] @ lit ''"}}''\<close>

definition pipeUpcase :: regex where
  "pipeUpcase = lit ''{{.'' @ [G Dot] @ lit '' | upcase}}''"

definition leadingDot :: regex where
  "leadingDot = lit ''{{.''"

text \<open>The eleven rewrites of \<open>rewriteSource\<close>, in the order the function applies them.\<close>

definition rewriteRules :: "(regex \<times> string) list" where
  "rewriteRules =
    [(commentPartial, ''{{> $1}}''),
     (commentInclude, ''{{> $1}}''),
     (helperPartial, ''{{> $1}}''),
     (helperInclude, ''{{> $1}}''),
     (helperSeed, ''<!-- seed($1) -->''),
     (withIndex2, ''{{$1.$2.$3.$4.$5}}''),
     (withIndex1, ''{{$1.$2.$3}}''),
     (withIndexJoin, ''{{$1.$2.$3}}''),
     (joinSep, ''{{join $1}}''),
     (pipeUpcase, ''{{upcase $1}}''),
     (leadingDot, ''{{'')]"

definition applyRules :: "(regex \<times> string) list \<Rightarrow> string \<Rightarrow> string" where
  "applyRules rules data = fold (\<lambda>(re, repl) d. replaceAll re repl d) rules data"

definition rewriteSource :: "string \<Rightarrow> string" where
  "rewriteSource source = applyRules rewriteRules (source @ [CHR 0x0A])"

definition cleanupSource :: "string \<Rightarrow> string" where
  "cleanupSource source = replaceAll seedRegex [] source"

definition extractPartials :: "string \<Rightarrow> string list list" where
  "extractPartials source = matchAll source partialRegex"

definition extractSeeds :: "string \<Rightarrow> string list list" where
  "extractSeeds source = rev (matchAll source seedRegex)"

text \<open>
  A text is in canonical syntax when it holds none of the legacy spellings, that is when
  none of the patterns of \<open>rewriteSource\<close> matches anywhere in it.
\<close>

fun occurs :: "regex \<Rightarrow> string \<Rightarrow> bool" where
  "occurs re [] = (rmatch re [] [] \<noteq> None)"
| "occurs re (x # xs) = (rmatch re (x # xs) [] \<noteq> None \<or> occurs re xs)"

definition canonicalText :: "string \<Rightarrow> bool" where
  "canonicalText s = list_all (\<lambda>(re, repl). \<not> occurs re s) rewriteRules"

text \<open>
  A plain reference string: not empty, on one line, and free of the characters that open
  a directive (\<open>{\<close> and \<open><\<close>).
\<close>

definition plainText :: "string \<Rightarrow> bool" where
  "plainText r = list_all (\<lambda>c. \<not> lineTerminator c \<and> c \<noteq> CHR ''{'' \<and> c \<noteq> CHR ''<'') r"

definition plainRef :: "string \<Rightarrow> bool" where
  "plainRef r = (r \<noteq> [] \<and> plainText r)"

text \<open>A pattern that cannot match across a line feed.\<close>

definition lineLocal :: "regex \<Rightarrow> bool" where
  "lineLocal re = list_all (\<lambda>it. it \<noteq> OptS \<and> it \<noteq> L (CHR 0x0A)) re"

definition endsLit :: "regex \<Rightarrow> bool" where
  "endsLit re = (re \<noteq> [] \<and> (\<exists>c. last re = L c \<and> c \<noteq> CHR 0x0A))"

section \<open>Seed data and lodash \<open>merge\<close>\<close>

text \<open>
  A parsed seed file. A JavaScript array is an object whose keys are its indices, so
  both are kept as a list of entries, the flag telling an array from a plain object.
  Keys of an entry list are pairwise different; the order of the entries carries no
  meaning. Numbers are the integers.
\<close>

datatype json = JNull | JBool bool | JNum int | JStr string | JObj bool "(string \<times> json) list"

text \<open>
  \<open>merge(object, source)\<close> of lodash, on parsed JSON. \<open>baseMerge\<close> visits every key
  of the source. A source value that is an array or a plain object goes through
  \<open>baseMergeDeep\<close>: under the key \<open>__proto__\<close> it is skipped (\<open>safeGet\<close> hides the
  value, and nothing is assigned); otherwise it is merged recursively into the value the
  object has under that key when that value is of the same kind, and into a fresh array
  or a fresh object when the object has no value there or a value that is not an array
  or object. A source array over a plain object starts from a fresh array as well,
  unless the plain object is array-like (it has a property \<open>length\<close> that is a valid
  length). Any other source value is assigned.

  Two merges lead out of JSON and are not followed: a plain object merged into an array
  (lodash sets named properties on the array, and a property \<open>length\<close> resizes it or
  throws), and an array merged into an array-like plain object (lodash copies the object
  as an array of that length, with \<open>undefined\<close> elements). For these the result is
  \<open>None\<close>.
\<close>

fun isObject :: "json \<Rightarrow> bool" where
  "isObject (JObj isArr entries) = True"
| "isObject v = False"

definition isArrayLike :: "(string \<times> json) list \<Rightarrow> bool" where
  "isArrayLike entries =
     (case map_of entries ''length'' of
        Some (JNum len) \<Rightarrow> 0 \<le> len \<and> len \<le> 9007199254740991
      | _ \<Rightarrow> False)"

fun mergeValue :: "json option \<Rightarrow> json \<Rightarrow> json option"
  and mergeEntries :: "(string \<times> json) list \<Rightarrow> (string \<times> json) list \<Rightarrow> (string \<times> json) list option"
where
  "mergeValue objValue (JObj isArr src) =
     (case objValue of
        Some (JObj objArr objEntries) \<Rightarrow>
          if isArr = objArr then map_option (JObj objArr) (mergeEntries objEntries src)
          else if isArr \<and> \<not> isArrayLike objEntries then map_option (JObj True) (mergeEntries [] src)
          else None
      | _ \<Rightarrow> map_option (JObj isArr) (mergeEntries [] src))"
| "mergeValue objValue srcValue = Some srcValue"
| "mergeEntries obj [] = Some obj"
| "mergeEntries obj ((key, srcValue) # rest) =
     (if key = ''__proto__'' \<and> isObject srcValue then mergeEntries obj rest
      else (case mergeValue (map_of obj key) srcValue of
              None \<Rightarrow> None
            | Some newValue \<Rightarrow> mergeEntries (AList.update key newValue obj) rest))"

function showNat :: "nat \<Rightarrow> string" where
  "showNat n = (if n < 10 then [''0123456789'' ! n] else showNat (n div 10) @ [''0123456789'' ! (n mod 10)])"
  by pat_completeness auto
termination
  by (relation "measure id") auto

definition showInt :: "int \<Rightarrow> string" where
  "showInt i = (if i < 0 then CHR ''-'' # showNat (nat (- i)) else showNat (nat i))"

text \<open>The keys \<open>merge\<close> visits in a source: those of an object or array, the indices
  of a string, none for the other values.\<close>

fun sourceEntries :: "json \<Rightarrow> (string \<times> json) list" where
  "sourceEntries (JObj isArr entries) = entries"
| "sourceEntries (JStr s) = zip (map showNat [0..<length s]) (map (\<lambda>c. JStr [c]) s)"
| "sourceEntries v = []"

fun merge :: "json \<Rightarrow> json \<Rightarrow> json option" where
  "merge (JObj isArr entries) source = map_option (JObj isArr) (mergeEntries entries (sourceEntries source))"
| "merge object source = Some object"

section \<open>The environment of the reader\<close>

text \<open>
  What the reader takes from Node and from its libraries: the file system
  (\<open>fs.readFileSync\<close>, \<open>fs.readFile\<close>; \<open>None\<close> when the file cannot be read),
  \<open>JSON.parse\<close> (\<open>None\<close> when the text is not JSON), \<open>path.resolve\<close>,
  \<open>path.dirname\<close>, and the Handlebars instance of \<open>createHandlebars\<close>:
  \<open>render e registered text context\<close> is \<open>handlebars.compile(text, {noEscape: true})(context)\<close>
  with the partials \<open>registered\<close>.
\<close>

datatype error = NotFound string | ParseError string | TemplateError string

record env =
  readFileSync :: "string \<Rightarrow> string option"
  jsonParse :: "string \<Rightarrow> json option"
  pathResolve :: "string list \<Rightarrow> string"
  pathDirname :: "string \<Rightarrow> string"
  render :: "(string \<times> string) list \<Rightarrow> string \<Rightarrow> json \<Rightarrow> error + string"

section \<open>Seeds and partials\<close>

text \<open>\<open>loadSeeds\<close>: the \<open>forEach\<close> over the seed directives, last directive first.
  An error carries the path of the file that failed. The result is \<open>None\<close> when a merge
  is one of those the model does not follow.\<close>

fun loadSeedsLoop :: "env \<Rightarrow> string \<Rightarrow> string list list \<Rightarrow> json \<Rightarrow> (error + json) option" where
  "loadSeedsLoop e inputDir [] seeds = Some (Inr seeds)"
| "loadSeedsLoop e inputDir (item # items) seeds =
     (let file = pathResolve e [inputDir, group1 item] in
      case readFileSync e file of
        None \<Rightarrow> Some (Inl (NotFound file))
      | Some text \<Rightarrow>
          (case jsonParse e text of
             None \<Rightarrow> Some (Inl (ParseError file))
           | Some data \<Rightarrow>
               (case merge seeds data of
                  None \<Rightarrow> None
                | Some seeds' \<Rightarrow> loadSeedsLoop e inputDir items seeds')))"

definition loadSeeds :: "env \<Rightarrow> string \<Rightarrow> string \<Rightarrow> (error + json) option" where
  "loadSeeds e source inputDir = loadSeedsLoop e inputDir (extractSeeds source) (JObj False [])"

text \<open>\<open>forEach(childrenPartials, (val, key) => ...)\<close>: assign every entry.\<close>

definition assignAll :: "(string \<times> string) list \<Rightarrow> (string \<times> string) list \<Rightarrow> (string \<times> string) list" where
  "assignAll entries obj = fold (\<lambda>(key, val). AList.update key val) entries obj"

text \<open>
  \<open>loadPartials\<close>. The seeds object is mutated by \<open>merge(seeds, childrenSeeds)\<close> and
  shared with the caller, so it is passed in and returned. \<open>registered\<close> is what has
  been registered on the Handlebars instance of this call, \<open>partials\<close> the object it
  returns. The trace lists the calls \<open>template(seeds)\<close> in the order they happen, each
  with the reference string, the file and the rendered text. The recursion follows the
  files, which may refer to each other in a cycle; the first argument bounds the depth
  of nesting, and \<open>None\<close> says the bound was reached (or a merge was not followed).
\<close>

type_synonym partials = "(string \<times> string) list"
type_synonym trace = "(string \<times> string \<times> string) list"

fun loadPartials :: "nat \<Rightarrow> env \<Rightarrow> string \<Rightarrow> json \<Rightarrow> string \<Rightarrow> trace
      \<Rightarrow> (error + partials \<times> json \<times> trace) option"
  and partialsLoop :: "nat \<Rightarrow> env \<Rightarrow> string \<Rightarrow> string list list \<Rightarrow> partials \<Rightarrow> partials
      \<Rightarrow> json \<Rightarrow> trace \<Rightarrow> (error + partials \<times> json \<times> trace) option"
where
  "loadPartials n e source seeds inputDir tr =
     partialsLoop n e inputDir (extractPartials source) [] [] seeds tr"
| "partialsLoop n e inputDir [] registered partials seeds tr = Some (Inr (partials, seeds, tr))"
| "partialsLoop 0 e inputDir (item # items) registered partials seeds tr = None"
| "partialsLoop (Suc n) e inputDir (item # items) registered partials seeds tr =
     (let inputFile = pathResolve e [inputDir, group1 item] in
      case readFileSync e inputFile of
        None \<Rightarrow> Some (Inl (NotFound inputFile))
      | Some source \<Rightarrow>
          (let sourceDir = pathDirname e inputFile;
               data = rewriteSource source in
           case loadSeeds e source sourceDir of
             None \<Rightarrow> None
           | Some (Inl err) \<Rightarrow> Some (Inl err)
           | Some (Inr childrenSeeds) \<Rightarrow>
               (case loadPartials n e data seeds sourceDir tr of
                  None \<Rightarrow> None
                | Some (Inl err) \<Rightarrow> Some (Inl err)
                | Some (Inr (childrenPartials, seeds1, tr1)) \<Rightarrow>
                    (let registered' = assignAll childrenPartials registered;
                         partials' = assignAll childrenPartials partials in
                     case merge seeds1 childrenSeeds of
                       None \<Rightarrow> None
                     | Some seeds2 \<Rightarrow>
                         (case render e registered' (cleanupSource data) seeds2 of
                            Inl err \<Rightarrow> Some (Inl err)
                          | Inr text \<Rightarrow>
                              partialsLoop (Suc n) e inputDir items registered'
                                (AList.update (group1 item) text partials') seeds2
                                (tr1 @ [(group1 item, inputFile, text)]))))))"

definition rewriteInput :: "nat \<Rightarrow> env \<Rightarrow> string \<Rightarrow> string \<Rightarrow> (error + string) option" where
  "rewriteInput n e source inputDir =
     (let data = rewriteSource source in
      case loadSeeds e data inputDir of
        None \<Rightarrow> None
      | Some (Inl err) \<Rightarrow> Some (Inl err)
      | Some (Inr seeds) \<Rightarrow>
          (case loadPartials n e data seeds inputDir [] of
             None \<Rightarrow> None
           | Some (Inl err) \<Rightarrow> Some (Inl err)
           | Some (Inr (partials, seeds', tr)) \<Rightarrow>
               Some (render e (assignAll partials []) (cleanupSource data) seeds')))"

definition readInput :: "env \<Rightarrow> string \<Rightarrow> error + string \<times> string" where
  "readInput e input =
     (case readFileSync e input of
        None \<Rightarrow> Inl (NotFound input)
      | Some source \<Rightarrow> Inr (source, pathDirname e input))"

definition read :: "nat \<Rightarrow> env \<Rightarrow> string \<Rightarrow> (error + string) option" where
  "read n e input =
     (case readInput e input of
        Inl err \<Rightarrow> Some (Inl err)
      | Inr (source, inputDir) \<Rightarrow> rewriteInput n e source inputDir)"

section \<open>The dependency walk\<close>

definition resolveFile :: "env \<Rightarrow> string \<Rightarrow> string \<Rightarrow> error + string \<times> string" where
  "resolveFile e input basedir =
     (let inputFile = pathResolve e [basedir, input] in
      case readFileSync e inputFile of
        None \<Rightarrow> Inl (NotFound inputFile)
      | Some text \<Rightarrow> Inr (rewriteSource text, pathDirname e inputFile))"

text \<open>\<open>extractChildren\<close> pushes onto the array \<open>children\<close> of its caller; the array
  is passed in and returned. The first argument bounds the depth of nesting.\<close>

fun extractChildren :: "nat \<Rightarrow> env \<Rightarrow> string \<Rightarrow> string \<Rightarrow> string list \<Rightarrow> (error + string list) option"
  and childrenLoop :: "nat \<Rightarrow> env \<Rightarrow> string \<Rightarrow> string list list \<Rightarrow> string list
      \<Rightarrow> (error + string list) option"
where
  "extractChildren n e source inputDir children =
     (let sourceClean = rewriteSource source;
          partials = extractPartials sourceClean;
          seeds = extractSeeds sourceClean in
      case childrenLoop n e inputDir partials children of
        None \<Rightarrow> None
      | Some (Inl err) \<Rightarrow> Some (Inl err)
      | Some (Inr children1) \<Rightarrow>
          Some (Inr (children1
            @ map (\<lambda>item. pathResolve e [inputDir, group1 item]) partials
            @ map (\<lambda>item. pathResolve e [inputDir, group1 item]) seeds)))"
| "childrenLoop n e inputDir [] children = Some (Inr children)"
| "childrenLoop 0 e inputDir (partial # rest) children = None"
| "childrenLoop (Suc n) e inputDir (partial # rest) children =
     (case resolveFile e (group1 partial) inputDir of
        Inl err \<Rightarrow> Some (Inl err)
      | Inr (partialSource, partialDir) \<Rightarrow>
          (case extractChildren n e partialSource partialDir children of
             None \<Rightarrow> None
           | Some (Inl err) \<Rightarrow> Some (Inl err)
           | Some (Inr children1) \<Rightarrow> childrenLoop (Suc n) e inputDir rest children1))"

definition extractPaths :: "nat \<Rightarrow> env \<Rightarrow> string \<Rightarrow> (error + string list) option" where
  "extractPaths n e input =
     (let children = [pathResolve e [input]] in
      case readInput e input of
        Inl err \<Rightarrow> Some (Inl err)
      | Inr (source, inputDir) \<Rightarrow> extractChildren n e source inputDir children)"

section \<open>A concrete environment\<close>

text \<open>
  For the scenarios: POSIX paths, a file system given as a list of files, a parser for
  the JSON of the seed files used here (objects, arrays, strings without escapes,
  integers, \<open>true\<close>, \<open>false\<close>, \<open>null\<close>) and the fragment of Handlebars the partial
  files used here are written in (text, \<open>{{path}}\<close> and \<open>{{> name}}\<close> inside a line).
\<close>

fun splitOn :: "char \<Rightarrow> string \<Rightarrow> string list" where
  "splitOn c [] = [] # []"
| "splitOn c (x # xs) =
     (if x = c then [] # splitOn c xs
      else (case splitOn c xs of [] \<Rightarrow> [x] # [] | w # ws \<Rightarrow> (x # w) # ws))"

fun joinWith :: "string \<Rightarrow> string list \<Rightarrow> string" where
  "joinWith sep [] = []"
| "joinWith sep [w] = w"
| "joinWith sep (w # v # ws) = w @ sep @ joinWith sep (v # ws)"

fun normalizeSegments :: "string list \<Rightarrow> string list \<Rightarrow> string list" where
  "normalizeSegments acc [] = acc"
| "normalizeSegments acc (seg # segs) =
     (if seg = [] \<or> seg = ''.'' then normalizeSegments acc segs
      else if seg = ''..'' then normalizeSegments (butlast acc) segs
      else normalizeSegments (acc @ [seg]) segs)"

definition posixResolve :: "string \<Rightarrow> string list \<Rightarrow> string" where
  "posixResolve cwd args =
     (let p = foldl (\<lambda>cur a. if a = [] then cur else if hd a = CHR ''/'' then a else cur @ ''/'' @ a)
                cwd args
      in CHR ''/'' # joinWith ''/'' (normalizeSegments [] (splitOn (CHR ''/'') p)))"

definition dropSlashes :: "string \<Rightarrow> string" where
  "dropSlashes p = rev (dropWhile (\<lambda>c. c = CHR ''/'') (rev p))"

definition posixDirname :: "string \<Rightarrow> string" where
  "posixDirname path =
     (let p = dropSlashes path in
      if p = [] then (if path = [] then ''.'' else ''/'')
      else if CHR ''/'' \<notin> set p then ''.''
      else (let d = dropSlashes (rev (dropWhile (\<lambda>c. c \<noteq> CHR ''/'') (rev p)))
            in if d = [] then ''/'' else d))"

subsection \<open>JSON\<close>

fun skipWs :: "string \<Rightarrow> string" where
  "skipWs [] = []"
| "skipWs (c # cs) = (if c \<in> set [CHR '' '', CHR 0x09, CHR 0x0A, CHR 0x0D] then skipWs cs else c # cs)"

definition digitVal :: "char \<Rightarrow> nat" where
  "digitVal c = length (takeWhile (\<lambda>d. d \<noteq> c) ''0123456789'')"

fun parseDigits :: "nat \<Rightarrow> string \<Rightarrow> nat \<times> string" where
  "parseDigits acc [] = (acc, [])"
| "parseDigits acc (c # cs) =
     (if c \<in> set ''0123456789'' then parseDigits (10 * acc + digitVal c) cs else (acc, c # cs))"

fun parseString :: "string \<Rightarrow> string \<Rightarrow> (string \<times> string) option" where
  "parseString acc [] = None"
| "parseString acc (c # cs) =
     (if c = CHR 0x22 then Some (acc, cs)
      else if c = CHR 0x5C then None
      else parseString (acc @ [c]) cs)"

text \<open>The first argument bounds the number of nested calls; the length of the text is
  enough, every call reading at least one character.\<close>

fun parseValue :: "nat \<Rightarrow> string \<Rightarrow> (json \<times> string) option"
  and parseMembers :: "nat \<Rightarrow> string \<Rightarrow> (string \<times> json) list \<Rightarrow> ((string \<times> json) list \<times> string) option"
  and parseElements :: "nat \<Rightarrow> string \<Rightarrow> (string \<times> json) list \<Rightarrow> ((string \<times> json) list \<times> string) option"
where
  "parseValue 0 s = None"
| "parseValue (Suc n) s =
     (case skipWs s of
        [] \<Rightarrow> None
      | c # cs \<Rightarrow>
          if c = CHR ''{'' then
            (case skipWs cs of
               [] \<Rightarrow> None
             | d # ds \<Rightarrow> if d = CHR ''}'' then Some (JObj False [], ds)
                         else map_option (\<lambda>(es, r). (JObj False es, r)) (parseMembers n cs []))
          else if c = CHR ''['' then
            (case skipWs cs of
               [] \<Rightarrow> None
             | d # ds \<Rightarrow> if d = CHR '']'' then Some (JObj True [], ds)
                         else map_option (\<lambda>(es, r). (JObj True es, r)) (parseElements n cs []))
          else if c = CHR 0x22 then map_option (\<lambda>(str, r). (JStr str, r)) (parseString [] cs)
          else if c = CHR ''-'' \<and> cs \<noteq> [] \<and> hd cs \<in> set ''0123456789'' then
            (case parseDigits 0 cs of (k, r) \<Rightarrow> Some (JNum (- int k), r))
          else if c \<in> set ''0123456789'' then
            (case parseDigits 0 (c # cs) of (k, r) \<Rightarrow> Some (JNum (int k), r))
          else if take 4 (c # cs) = ''true'' then Some (JBool True, drop 4 (c # cs))
          else if take 5 (c # cs) = ''false'' then Some (JBool False, drop 5 (c # cs))
          else if take 4 (c # cs) = ''null'' then Some (JNull, drop 4 (c # cs))
          else None)"
| "parseMembers 0 s acc = None"
| "parseMembers (Suc n) s acc =
     (case skipWs s of
        [] \<Rightarrow> None
      | c # cs \<Rightarrow>
          if c \<noteq> CHR 0x22 then None
          else (case parseString [] cs of
              None \<Rightarrow> None
            | Some (key, r1) \<Rightarrow>
                (case skipWs r1 of
                   [] \<Rightarrow> None
                 | c1 # r2 \<Rightarrow>
                     if c1 \<noteq> CHR '':'' then None
                     else (case parseValue n r2 of
                         None \<Rightarrow> None
                       | Some (v, r3) \<Rightarrow>
                           (case skipWs r3 of
                              [] \<Rightarrow> None
                            | c3 # r4 \<Rightarrow>
                                if c3 = CHR '','' then parseMembers n r4 (AList.update key v acc)
                                else if c3 = CHR ''}'' then Some (AList.update key v acc, r4)
                                else None)))))"
| "parseElements 0 s acc = None"
| "parseElements (Suc n) s acc =
     (case parseValue n s of
        None \<Rightarrow> None
      | Some (v, r1) \<Rightarrow>
          (case skipWs r1 of
             [] \<Rightarrow> None
           | c # r2 \<Rightarrow>
               if c = CHR '','' then parseElements n r2 (acc @ [(showNat (length acc), v)])
               else if c = CHR '']'' then Some (acc @ [(showNat (length acc), v)], r2)
               else None))"

definition parseJson :: "string \<Rightarrow> json option" where
  "parseJson s =
     (case parseValue (Suc (length s)) s of
        None \<Rightarrow> None
      | Some (v, r) \<Rightarrow> if skipWs r = [] then Some v else None)"

subsection \<open>Handlebars\<close>

datatype token = Content string | Mustache string

fun tokenize :: "string \<Rightarrow> string \<Rightarrow> token list option"
  and mustache :: "string \<Rightarrow> string \<Rightarrow> token list option"
where
  "tokenize acc [] = Some [Content acc]"
| "tokenize acc [c] = Some [Content (acc @ [c])]"
| "tokenize acc (c # d # cs) =
     (if c = CHR ''{'' \<and> d = CHR ''{'' then map_option ((#) (Content acc)) (mustache [] cs)
      else tokenize (acc @ [c]) (d # cs))"
| "mustache acc [] = None"
| "mustache acc [c] = None"
| "mustache acc (c # d # cs) =
     (if c = CHR ''}'' \<and> d = CHR ''}'' then map_option ((#) (Mustache acc)) (tokenize [] cs)
      else mustache (acc @ [c]) (d # cs))"

definition trim :: "string \<Rightarrow> string" where
  "trim s = rev (dropWhile (\<lambda>c. c = CHR '' '') (rev (dropWhile (\<lambda>c. c = CHR '' '') s)))"

definition isPathChar :: "char \<Rightarrow> bool" where
  "isPathChar c = (c \<in> set ''abcdefghijklmnopqrstuvwxyzABCDEFGHIJKLMNOPQRSTUVWXYZ0123456789_-.'')"

fun lookupPath :: "json \<Rightarrow> string list \<Rightarrow> json option" where
  "lookupPath v [] = Some v"
| "lookupPath (JObj isArr entries) (seg # segs) =
     (case map_of entries seg of None \<Rightarrow> None | Some v \<Rightarrow> lookupPath v segs)"
| "lookupPath v (seg # segs) = None"

text \<open>What a mustache prints for a value; a missing value prints nothing.\<close>

fun showValue :: "json option \<Rightarrow> (error + string)" where
  "showValue None = Inr []"
| "showValue (Some JNull) = Inr []"
| "showValue (Some (JBool b)) = Inr (if b then ''true'' else ''false'')"
| "showValue (Some (JNum i)) = Inr (showInt i)"
| "showValue (Some (JStr s)) = Inr s"
| "showValue (Some (JObj isArr entries)) =
     (if isArr then Inl (TemplateError ''array'') else Inr ''[object Object]'')"

fun renderTokens :: "nat \<Rightarrow> (string \<times> string) list \<Rightarrow> token list \<Rightarrow> json \<Rightarrow> error + string" where
  "renderTokens n registered [] context = Inr []"
| "renderTokens n registered (Content s # ts) context =
     (case renderTokens n registered ts context of Inl err \<Rightarrow> Inl err | Inr out \<Rightarrow> Inr (s @ out))"
| "renderTokens n registered (Mustache m # ts) context =
     (let expr = trim m in
      case (if expr \<noteq> [] \<and> hd expr = CHR ''>'' then
              (case map_of registered (trim (tl expr)) of
                 None \<Rightarrow> Inl (TemplateError (trim (tl expr)))
               | Some text \<Rightarrow>
                   (case n of
                      0 \<Rightarrow> Inl (TemplateError (trim (tl expr)))
                    | Suc k \<Rightarrow>
                        (case tokenize [] text of
                           None \<Rightarrow> Inl (TemplateError text)
                         | Some ts' \<Rightarrow> renderTokens k registered ts' context)))
            else if expr \<noteq> [] \<and> list_all isPathChar expr then
              showValue (lookupPath context (splitOn (CHR ''.'') expr))
            else Inl (TemplateError expr))
      of Inl err \<Rightarrow> Inl err
       | Inr piece \<Rightarrow>
           (case renderTokens n registered ts context of
              Inl err \<Rightarrow> Inl err
            | Inr out \<Rightarrow> Inr (piece @ out)))"

definition hbsRender :: "(string \<times> string) list \<Rightarrow> string \<Rightarrow> json \<Rightarrow> error + string" where
  "hbsRender registered text context =
     (case tokenize [] text of
        None \<Rightarrow> Inl (TemplateError text)
      | Some ts \<Rightarrow> renderTokens (length registered) registered ts context)"

definition nodeEnv :: "string \<Rightarrow> (string \<times> string) list \<Rightarrow> env" where
  "nodeEnv cwd files =
     \<lparr> readFileSync = (\<lambda>p. map_of files (posixResolve cwd [p])),
       jsonParse = parseJson,
       pathResolve = posixResolve cwd,
       pathDirname = posixDirname,
       render = hbsRender \<rparr>"

section \<open>Scenarios\<close>

text \<open>A partial that names its seed file in the helper spelling, the file missing; the
  same partial with the comment spelling; and a root over each.\<close>

definition helperSeedFiles :: "(string \<times> string) list" where
  \<open>helperSeedFiles =
    [(''/docs/root.txt'', ''Root: {{> part.txt}}''),
     (''/docs/part.txt'', ''{{seed "missing.json"}}Body''),
     (''/docs/root2.txt'', ''Root: {{> part2.txt}}''),
     (''/docs/part2.txt'', ''<!-- seed(missing.json) -->Body''),
     (''/docs/root3.txt'', ''Root: {{> sub/mid.txt}}''),
     (''/docs/sub/mid.txt'', ''Mid {{> part3.txt}}''),
     (''/docs/sub/part3.txt'', ''<!-- seed(missing.json) -->Body'')]\<close>


section \<open>What a merge keeps\<close>

text \<open>The value a JSON value holds at a path of keys and array indices.\<close>

fun valueAt :: "json \<Rightarrow> string list \<Rightarrow> json option" where
  "valueAt v [] = Some v"
| "valueAt (JObj isArr entries) (key # path) =
     (case map_of entries key of None \<Rightarrow> None | Some v \<Rightarrow> valueAt v path)"
| "valueAt v (key # path) = None"





text \<open>The keys of an object that a merge does not skip.\<close>

definition mergedKeys :: "(string \<times> json) list \<Rightarrow> string set" where
  "mergedKeys obj
   = fst ` set (filter (\<lambda>entry. \<not> (fst entry = ''__proto__'' \<and> isObject (snd entry))) obj)"

text \<open>
  The walk of \<open>rewriteInput\<close> up to its last step, the rendering of the root: the seeds
  of the root are loaded, then the partials, which extend the seeds.
\<close>

definition resolveWalk :: "nat \<Rightarrow> env \<Rightarrow> string \<Rightarrow> string
    \<Rightarrow> (error + partials \<times> json \<times> trace) option" where
  "resolveWalk n e source inputDir =
     (let data = rewriteSource source in
      case loadSeeds e data inputDir of
        None \<Rightarrow> None
      | Some (Inl err) \<Rightarrow> Some (Inl err)
      | Some (Inr seeds) \<Rightarrow> loadPartials n e data seeds inputDir [])"

fun partialsOf :: "(error + partials \<times> json \<times> trace) option \<Rightarrow> partials" where
  "partialsOf (Some (Inr (partials, seeds, tr))) = partials"
| "partialsOf r = []"

fun contextOf :: "(error + partials \<times> json \<times> trace) option \<Rightarrow> (string \<times> json) list" where
  "contextOf (Some (Inr (partials, JObj isArr entries, tr))) = entries"
| "contextOf r = []"







text \<open>The example of the specification: a root with a seed and a partial, the partial
  with a seed of its own.\<close>

definition exampleFiles :: "(string \<times> string) list" where
  \<open>exampleFiles =
    [(''/docs/root.txt'', ''<!-- seed(a.json) -->\<newline>{{> child.txt}}''),
     (''/docs/a.json'', ''{"x":1,"y":1}''),
     (''/docs/child.txt'', ''<!-- seed(b.json) -->Hello {{x}}''),
     (''/docs/b.json'', ''{"x":2,"z":2}'')]\<close>



section \<open>The references of a file\<close>






lemmas rx = commentPartial_def commentInclude_def helperPartial_def helperInclude_def helperSeed_def
  withIndex_def withIndex2_def withIndex1_def withIndexJoin_def joinSep_def pipeUpcase_def leadingDot_def
  partialRegex_def seedRegex_def lit_def

lemma rmatch_nil_none:
  "re \<noteq> [] \<Longrightarrow> last re = L c \<Longrightarrow> rmatch re [] caps = None"
proof (induction re arbitrary: caps)
  case Nil
  then show ?case by simp
next
  case (Cons it r)
  show ?case
  proof (cases it)
    case (L d)
    then show ?thesis by simp
  next
    case AnyCh
    then show ?thesis by simp
  next
    case OptS
    with Cons.prems have "r \<noteq> []" by (cases r) auto
    with Cons OptS show ?thesis by simp
  next
    case (G k)
    then show ?thesis by simp
  qed
qed

lemma gplus_snoc:
  assumes "\<not> p e"
    and "\<And>cap rest. k cap (rest @ [e]) = map_option f (k cap rest)"
  shows "gplus p k acc (s @ [e]) = map_option f (gplus p k acc s)"
  using assms
proof (induction s arbitrary: acc)
  case Nil
  then show ?case by simp
next
  case (Cons x xs)
  then show ?case by (simp split: option.splits)
qed

lemma rmatch_snoc:
  "endsLit re \<Longrightarrow>
   rmatch re (s @ [CHR 0x0A]) caps = map_option (\<lambda>(cs, r). (cs, r @ [CHR 0x0A])) (rmatch re s caps)"
proof (induction re arbitrary: s caps)
  case Nil
  then show ?case by (simp add: endsLit_def)
next
  case (Cons it r)
  from Cons.prems obtain c where c: "last (it # r) = L c" "c \<noteq> CHR 0x0A"
    by (auto simp: endsLit_def)
  show ?case
  proof (cases "r = []")
    case True
    with c have "it = L c" by simp
    with True c show ?thesis by (cases s) auto
  next
    case False
    with c have er: "endsLit r" by (auto simp: endsLit_def)
    from False c have lr: "last r = L c" by simp
    note IH = Cons.IH[OF er]
    show ?thesis
    proof (cases it)
      case (L d)
      show ?thesis
      proof (cases s)
        case Nil
        with L rmatch_nil_none[OF False lr] show ?thesis by simp
      next
        case (Cons x xs)
        with L IH show ?thesis by simp
      qed
    next
      case AnyCh
      show ?thesis
      proof (cases s)
        case Nil
        with AnyCh show ?thesis by (simp add: lineTerminator_def)
      next
        case (Cons x xs)
        with AnyCh IH show ?thesis by simp
      qed
    next
      case OptS
      show ?thesis
      proof (cases s)
        case Nil
        have "rmatch r [CHR 0x0A] caps = None"
          using IH[of "[]" caps] rmatch_nil_none[OF False lr] by simp
        with OptS Nil rmatch_nil_none[OF False lr] show ?thesis by (simp add: isSpace_def)
      next
        case (Cons x xs)
        with OptS IH[of xs caps] IH[of "x # xs" caps] show ?thesis
          by (simp split: option.splits)
      qed
    next
      case (G k)
      have "\<not> inCls k (CHR 0x0A)" by (cases k) (simp_all add: lineTerminator_def)
      then show ?thesis using G IH by (simp add: gplus_snoc)
    qed
  qed
qed

lemma replaceAll_snoc:
  "endsLit re \<Longrightarrow> replaceAll re repl (s @ [CHR 0x0A]) = replaceAll re repl s @ [CHR 0x0A]"
proof (induction re repl s rule: replaceAll.induct)
  case (1 re repl)
  from "1.prems" obtain c where "re \<noteq> []" "last re = L c" by (auto simp: endsLit_def)
  then have n: "rmatch re [] [] = None" by (rule rmatch_nil_none)
  have "rmatch re [CHR 0x0A] [] = None"
    using rmatch_snoc[OF "1.prems", of "[]" "[]"] n by simp
  with n show ?case by simp
next
  case (2 re repl x xs)
  note ms = rmatch_snoc[OF "2.prems", of "x # xs" "[]"]
  show ?case
  proof (cases "rmatch re (x # xs) []")
    case None
    with ms "2.IH"(1) "2.prems" show ?thesis by simp
  next
    case (Some a)
    then obtain cs rest where m: "rmatch re (x # xs) [] = Some (cs, rest)" by (cases a) auto
    from ms m have ms': "rmatch re (x # xs @ [CHR 0x0A]) [] = Some (cs, rest @ [CHR 0x0A])"
      by simp
    show ?thesis
    proof (cases "length rest < length (x # xs)")
      case True
      have ih: "replaceAll re repl (rest @ [CHR 0x0A]) = replaceAll re repl rest @ [CHR 0x0A]"
        by (rule "2.IH"(2)[OF m refl True "2.prems"])
      have "replaceAll re repl (x # xs @ [CHR 0x0A]) = expandRepl repl cs @ replaceAll re repl (rest @ [CHR 0x0A])"
        using True by (subst replaceAll.simps(2)) (simp add: ms')
      moreover have "replaceAll re repl (x # xs) = expandRepl repl cs @ replaceAll re repl rest"
        using True m by (subst replaceAll.simps(2)) simp
      ultimately show ?thesis using ih by simp
    next
      case False
      have ih: "replaceAll re repl (xs @ [CHR 0x0A]) = replaceAll re repl xs @ [CHR 0x0A]"
        by (rule "2.IH"(3)[OF m refl False "2.prems"])
      have "replaceAll re repl (x # xs @ [CHR 0x0A]) = expandRepl repl cs @ x # replaceAll re repl (xs @ [CHR 0x0A])"
        using False by (subst replaceAll.simps(2)) (simp add: ms')
      moreover have "replaceAll re repl (x # xs) = expandRepl repl cs @ x # replaceAll re repl xs"
        using False m by (subst replaceAll.simps(2)) simp
      ultimately show ?thesis using ih by simp
    qed
  qed
qed


lemma applyRules_snoc:
  "list_all (\<lambda>(re, repl). endsLit re) rules \<Longrightarrow>
   applyRules rules (s @ [CHR 0x0A]) = applyRules rules s @ [CHR 0x0A]"
  by (induction rules arbitrary: s) (auto simp: applyRules_def replaceAll_snoc)

lemma rewriteRules_endsLit: "list_all (\<lambda>(re, repl). endsLit re) rewriteRules"
  by (simp add: rewriteRules_def rx endsLit_def)

lemma rewriteSource_newline: "rewriteSource s = applyRules rewriteRules s @ [CHR 0x0A]"
  unfolding rewriteSource_def by (rule applyRules_snoc[OF rewriteRules_endsLit])

lemma replaceAll_no_occurrence: "\<not> occurs re s \<Longrightarrow> replaceAll re repl s = s"
  by (induction s) (auto split: option.splits)

lemma applyRules_no_occurrence:
  "list_all (\<lambda>(re, repl). \<not> occurs re s) rules \<Longrightarrow> applyRules rules s = s"
  by (induction rules) (auto simp: applyRules_def replaceAll_no_occurrence)

lemma canonical_sample:
  "canonicalText ''<!-- seed(a.json) -->\<newline>{{> child.txt}}\<newline>{{user.0.name}} {{join tags}} {{upcase title}}''"
  by (simp add: canonicalText_def rewriteRules_def rx lineTerminator_def isSpace_def)

text \<open>
  C6. The output of the normalizer is not always at least as long as its input: a
  comment-style partial marker is longer than the canonical reference it becomes.
\<close>

theorem normalize_shortens_counterexample:
  "length (rewriteSource ''<!-- partial(a) -->'') < length ''<!-- partial(a) -->''"
  by (simp add: rewriteSource_def applyRules_def rewriteRules_def rx lineTerminator_def isSpace_def groupIndex_def)

text \<open>
  C6, as amended. The output of the normalizer is the rewritten input followed by exactly
  one appended newline, which no rewrite consumes; when the input holds no legacy
  spelling the output is exactly one character longer than the input.
\<close>

theorem normalize_appends_newline:
  "rewriteSource s = applyRules rewriteRules s @ [CHR 0x0A]
   \<and> (canonicalText s \<longrightarrow> length (rewriteSource s) = Suc (length s))"
  by (simp add: rewriteSource_newline canonicalText_def applyRules_no_occurrence)

theorem normalize_appends_newline_witness:
  "canonicalText ''{{> child.txt}}'' \<and> length (rewriteSource ''{{> child.txt}}'') = Suc (length ''{{> child.txt}}'')"
proof -
  have c: "canonicalText ''{{> child.txt}}''"
    by (simp add: canonicalText_def rewriteRules_def rx lineTerminator_def isSpace_def)
  with normalize_appends_newline[of "''{{> child.txt}}''"] show ?thesis by blast
qed

lemma rmatch_lit: "rmatch (lit ps @ r) (ps @ t) caps = rmatch r t caps"
  by (induction ps) (simp_all add: lit_def)

lemma rmatch_lit_prefix: "rmatch (lit ps @ r) t caps = Some y \<Longrightarrow> prefix ps t"
proof (induction ps arbitrary: t)
  case Nil
  then show ?case by simp
next
  case (Cons a ps)
  then show ?case by (cases t) (auto simp: lit_def split: if_splits)
qed

lemma gplus_greedy:
  "\<lbrakk>r \<noteq> []; \<forall>c\<in>set r. p c; gplus p k (acc @ r) t = None; k (acc @ r) t \<noteq> None\<rbrakk>
   \<Longrightarrow> gplus p k acc (r @ t) = k (acc @ r) t"
proof (induction r arbitrary: acc)
  case Nil
  then show ?case by simp
next
  case (Cons x r)
  show ?case
  proof (cases "r = []")
    case True
    with Cons.prems show ?thesis by simp
  next
    case False
    have "gplus p k (acc @ [x]) (r @ t) = k ((acc @ [x]) @ r) t"
      using Cons.prems False by (intro Cons.IH) simp_all
    with Cons.prems show ?thesis by (auto split: option.splits)
  qed
qed

lemma gplus_none:
  "(\<And>u v cap. s = u @ v \<Longrightarrow> u \<noteq> [] \<Longrightarrow> \<forall>c\<in>set u. p c \<Longrightarrow> k cap v = None)
   \<Longrightarrow> gplus p k acc s = None"
proof (induction s arbitrary: acc)
  case Nil
  then show ?case by simp
next
  case (Cons x xs)
  show ?case
  proof (cases "p x")
    case False
    then show ?thesis by simp
  next
    case True
    have "gplus p k (acc @ [x]) xs = None"
    proof (rule Cons.IH)
      fix u v cap
      assume "xs = u @ v" "u \<noteq> []" "\<forall>c\<in>set u. p c"
      with True show "k cap v = None"
        using Cons.prems[of "x # u" v cap] by simp
    qed
    moreover have "k (acc @ [x]) xs = None"
      using Cons.prems[of "[x]" xs "acc @ [x]"] True by simp
    ultimately show ?thesis using True by simp
  qed
qed

lemma replaceAll_skip_char:
  "c0 \<notin> set ps \<Longrightarrow> replaceAll (L c0 # r) repl (ps @ s) = ps @ replaceAll (L c0 # r) repl s"
  by (induction ps) auto

text \<open>A single-line body between an opening and a closing literal is captured whole
  when the capture cannot be extended past the closing literal.\<close>

lemma match_open_close:
  assumes "R \<noteq> []" and "\<forall>c\<in>set R. \<not> lineTerminator c"
    and "gplus (inCls Dot) (\<lambda>cap rest. rmatch (lit cl) rest (caps @ [cap])) R (cl @ t) = None"
  shows "rmatch (lit ps @ [G Dot] @ lit cl) (ps @ R @ cl @ t) caps = Some (caps @ [R], t)"
proof -
  let ?k = "\<lambda>cap rest. rmatch (lit cl) rest (caps @ [cap])"
  have k: "?k ([] @ R) (cl @ t) = Some (caps @ [R], t)"
    using rmatch_lit[of cl "[]" t "caps @ [R]"] by simp
  have "gplus (inCls Dot) ?k [] (R @ cl @ t) = ?k ([] @ R) (cl @ t)"
    using assms k by (intro gplus_greedy) simp_all
  with k have "rmatch ([G Dot] @ lit cl) (R @ cl @ t) caps = Some (caps @ [R], t)"
    by simp
  then show ?thesis
    using rmatch_lit[of ps "[G Dot] @ lit cl" "R @ cl @ t" caps] by simp
qed

lemma occurs_skip_char:
  "c0 \<notin> set ps \<Longrightarrow> occurs (L c0 # r) (ps @ s) = occurs (L c0 # r) s"
  by (induction ps) auto

lemma plainText_chars:
  assumes "plainText r"
  shows "\<forall>c\<in>set r. inCls Dot c" and "CHR ''{'' \<notin> set r" and "CHR ''<'' \<notin> set r"
    and "\<forall>c\<in>set r. \<not> lineTerminator c"
  using assms by (auto simp: plainText_def list_all_iff)

lemmas ev = lineTerminator_def isSpace_def groupIndex_def

lemma canonical_partial_ref:
  assumes "plainRef r"
  shows "canonicalText (''{{> '' @ r @ ''}}'')"
proof -
  note pc = plainText_chars[OF assms[unfolded plainRef_def, THEN conjunct2]]
  show ?thesis
    using pc(2,3) by (simp add: canonicalText_def rewriteRules_def rx occurs_skip_char ev)
qed

lemma rewrite_canonical_partial_ref:
  assumes "plainRef r"
  shows "rewriteSource (''{{> '' @ r @ ''}}'') = ''{{> '' @ r @ ''}}\<newline>''"
  using canonical_partial_ref[OF assms]
  by (simp add: rewriteSource_newline canonicalText_def applyRules_no_occurrence)

lemma applyRules_canonical_suffix:
  assumes "canonicalText s" and "rewriteRules = pre @ rules"
  shows "applyRules rules s = s"
proof -
  from assms have "list_all (\<lambda>(re, repl). \<not> occurs re s) (pre @ rules)"
    unfolding canonicalText_def by simp
  then have "list_all (\<lambda>(re, repl). \<not> occurs re s) rules"
    by simp
  then show ?thesis by (rule applyRules_no_occurrence)
qed

lemma applyRules_step:
  assumes "rewriteRules = pre @ (re, repl) # post"
    and "list_all (\<lambda>(re, repl). \<not> occurs re s) pre"
    and "replaceAll re repl s = s'"
    and "canonicalText s'"
  shows "rewriteSource s = s' @ [CHR 0x0A]"
proof -
  have "applyRules rewriteRules s = applyRules post (replaceAll re repl (applyRules pre s))"
    unfolding assms(1) by (simp add: applyRules_def)
  also have "applyRules pre s = s"
    by (rule applyRules_no_occurrence[OF assms(2)])
  also have "applyRules post (replaceAll re repl s) = s'"
    unfolding assms(3)
    by (rule applyRules_canonical_suffix[OF assms(4), of "pre @ [(re, repl)]"]) (simp add: assms(1))
  finally show ?thesis by (simp add: rewriteSource_newline)
qed

lemma comment_partial_rewrite:
  assumes "plainRef r"
  shows "rewriteSource (''<!-- partial('' @ r @ '') -->'') = ''{{> '' @ r @ ''}}\<newline>''"
proof -
  note pr = assms[unfolded plainRef_def]
  note pc = plainText_chars[OF pr[THEN conjunct2]]
  have m: "rmatch commentPartial (''<!-- partial('' @ r @ '') -->'' @ []) [] = Some ([] @ [r], [])"
    unfolding commentPartial_def using pr pc(4)
    by (intro match_open_close) (simp_all add: lit_def ev)
  have 1: "replaceAll commentPartial ''{{> $1}}'' (''<!-- partial('' @ r @ '') -->'') = ''{{> '' @ r @ ''}}''"
    using m by (simp add: ev) (simp add: rx)
  have "rewriteSource (''<!-- partial('' @ r @ '') -->'') = (''{{> '' @ r @ ''}}'') @ [CHR 0x0A]"
    by (rule applyRules_step[OF _ _ 1 canonical_partial_ref[OF assms], of "[]" "tl rewriteRules"])
       (simp_all add: rewriteRules_def)
  then show ?thesis by simp
qed

lemma comment_include_rewrite:
  assumes "plainRef r"
  shows "rewriteSource (''<!-- include('' @ r @ '') -->'') = ''{{> '' @ r @ ''}}\<newline>''"
proof -
  note pr = assms[unfolded plainRef_def]
  note pc = plainText_chars[OF pr[THEN conjunct2]]
  have 0: "list_all (\<lambda>(re, repl). \<not> occurs re (''<!-- include('' @ r @ '') -->'')) (take 1 rewriteRules)"
    using pc(2,3) by (simp add: rewriteRules_def rx occurs_skip_char ev)
  have m: "rmatch commentInclude (''<!-- include('' @ r @ '') -->'' @ []) [] = Some ([] @ [r], [])"
    unfolding commentInclude_def using pr pc(4)
    by (intro match_open_close) (simp_all add: lit_def ev)
  have 1: "replaceAll commentInclude ''{{> $1}}'' (''<!-- include('' @ r @ '') -->'') = ''{{> '' @ r @ ''}}''"
    using m by (simp add: ev) (simp add: rx)
  have "rewriteSource (''<!-- include('' @ r @ '') -->'') = (''{{> '' @ r @ ''}}'') @ [CHR 0x0A]"
    by (rule applyRules_step[OF _ 0 1 canonical_partial_ref[OF assms], of "drop 2 rewriteRules"])
       (simp add: rewriteRules_def)
  then show ?thesis by simp
qed

lemma helper_partial_rewrite:
  assumes "plainRef r"
  shows \<open>rewriteSource (''{{partial "'' @ r @ ''"}}'') = ''{{> '' @ r @ ''}}\<newline>''\<close>
    and \<open>rewriteSource (''{{ partial "'' @ r @ ''" }}'') = ''{{> '' @ r @ ''}}\<newline>''\<close>
proof -
  note pr = assms[unfolded plainRef_def]
  note pc = plainText_chars[OF pr[THEN conjunct2]]
  have a: \<open>list_all (\<lambda>(re, repl). \<not> occurs re (''{{partial "'' @ r @ ''"}}'')) (take 2 rewriteRules)\<close>
    and b: \<open>list_all (\<lambda>(re, repl). \<not> occurs re (''{{ partial "'' @ r @ ''" }}'')) (take 2 rewriteRules)\<close>
    using pc(2,3) by (simp_all add: rewriteRules_def rx occurs_skip_char ev)
  have 1: \<open>replaceAll helperPartial ''{{> $1}}'' (''{{partial "'' @ r @ ''"}}'') = ''{{> '' @ r @ ''}}''\<close>
    using pr pc(1) by (simp add: rx ev gplus_greedy)
  have 2: \<open>replaceAll helperPartial ''{{> $1}}'' (''{{ partial "'' @ r @ ''" }}'') = ''{{> '' @ r @ ''}}''\<close>
    using pr pc(1) by (simp add: rx ev gplus_greedy)
  have \<open>rewriteSource (''{{partial "'' @ r @ ''"}}'') = (''{{> '' @ r @ ''}}'') @ [CHR 0x0A]\<close>
    by (rule applyRules_step[OF _ a 1 canonical_partial_ref[OF assms], of "drop 3 rewriteRules"])
       (simp add: rewriteRules_def)
  then show \<open>rewriteSource (''{{partial "'' @ r @ ''"}}'') = ''{{> '' @ r @ ''}}\<newline>''\<close>
    by simp
  have \<open>rewriteSource (''{{ partial "'' @ r @ ''" }}'') = (''{{> '' @ r @ ''}}'') @ [CHR 0x0A]\<close>
    by (rule applyRules_step[OF _ b 2 canonical_partial_ref[OF assms], of "drop 3 rewriteRules"])
       (simp add: rewriteRules_def)
  then show \<open>rewriteSource (''{{ partial "'' @ r @ ''" }}'') = ''{{> '' @ r @ ''}}\<newline>''\<close>
    by simp
qed

lemma helper_include_rewrite:
  assumes "plainRef r"
  shows \<open>rewriteSource (''{{include "'' @ r @ ''"}}'') = ''{{> '' @ r @ ''}}\<newline>''\<close>
    and \<open>rewriteSource (''{{ include "'' @ r @ ''" }}'') = ''{{> '' @ r @ ''}}\<newline>''\<close>
proof -
  note pr = assms[unfolded plainRef_def]
  note pc = plainText_chars[OF pr[THEN conjunct2]]
  have a: \<open>list_all (\<lambda>(re, repl). \<not> occurs re (''{{include "'' @ r @ ''"}}'')) (take 3 rewriteRules)\<close>
    and b: \<open>list_all (\<lambda>(re, repl). \<not> occurs re (''{{ include "'' @ r @ ''" }}'')) (take 3 rewriteRules)\<close>
    using pc(2,3) by (simp_all add: rewriteRules_def rx occurs_skip_char ev)
  have 1: \<open>replaceAll helperInclude ''{{> $1}}'' (''{{include "'' @ r @ ''"}}'') = ''{{> '' @ r @ ''}}''\<close>
    using pr pc(1) by (simp add: rx ev gplus_greedy)
  have 2: \<open>replaceAll helperInclude ''{{> $1}}'' (''{{ include "'' @ r @ ''" }}'') = ''{{> '' @ r @ ''}}''\<close>
    using pr pc(1) by (simp add: rx ev gplus_greedy)
  have \<open>rewriteSource (''{{include "'' @ r @ ''"}}'') = (''{{> '' @ r @ ''}}'') @ [CHR 0x0A]\<close>
    by (rule applyRules_step[OF _ a 1 canonical_partial_ref[OF assms], of "drop 4 rewriteRules"])
       (simp add: rewriteRules_def)
  then show \<open>rewriteSource (''{{include "'' @ r @ ''"}}'') = ''{{> '' @ r @ ''}}\<newline>''\<close>
    by simp
  have \<open>rewriteSource (''{{ include "'' @ r @ ''" }}'') = (''{{> '' @ r @ ''}}'') @ [CHR 0x0A]\<close>
    by (rule applyRules_step[OF _ b 2 canonical_partial_ref[OF assms], of "drop 4 rewriteRules"])
       (simp add: rewriteRules_def)
  then show \<open>rewriteSource (''{{ include "'' @ r @ ''" }}'') = ''{{> '' @ r @ ''}}\<newline>''\<close>
    by simp
qed

text \<open>
  C5. Spelling invariance: the comment-style partial, the comment-style include, the
  quoted-helper partial and the quoted-helper include spelling (the helper spellings with
  or without the optional blank inside the braces) of a plain reference string are all
  normalized to the text the canonical spelling of that reference string is normalized
  to, namely the canonical partial reference followed by the appended newline.
\<close>

theorem spelling_invariance:
  assumes "plainRef r"
  shows \<open>rewriteSource (''<!-- partial('' @ r @ '') -->'') = rewriteSource (''{{> '' @ r @ ''}}'')
    \<and> rewriteSource (''<!-- include('' @ r @ '') -->'') = rewriteSource (''{{> '' @ r @ ''}}'')
    \<and> rewriteSource (''{{partial "'' @ r @ ''"}}'') = rewriteSource (''{{> '' @ r @ ''}}'')
    \<and> rewriteSource (''{{ partial "'' @ r @ ''" }}'') = rewriteSource (''{{> '' @ r @ ''}}'')
    \<and> rewriteSource (''{{include "'' @ r @ ''"}}'') = rewriteSource (''{{> '' @ r @ ''}}'')
    \<and> rewriteSource (''{{ include "'' @ r @ ''" }}'') = rewriteSource (''{{> '' @ r @ ''}}'')
    \<and> rewriteSource (''{{> '' @ r @ ''}}'') = ''{{> '' @ r @ ''}}\<newline>''\<close>
  unfolding comment_partial_rewrite[OF assms] comment_include_rewrite[OF assms]
    helper_partial_rewrite[OF assms] helper_include_rewrite[OF assms]
    rewrite_canonical_partial_ref[OF assms]
  by simp

theorem spelling_invariance_witness:
  \<open>plainRef ''docs/intro.apib''
    \<and> rewriteSource ''<!-- partial(docs/intro.apib) -->'' = rewriteSource ''{{> docs/intro.apib}}''
    \<and> rewriteSource ''<!-- include(docs/intro.apib) -->'' = rewriteSource ''{{> docs/intro.apib}}''
    \<and> rewriteSource ''{{partial "docs/intro.apib"}}'' = rewriteSource ''{{> docs/intro.apib}}''
    \<and> rewriteSource ''{{ partial "docs/intro.apib" }}'' = rewriteSource ''{{> docs/intro.apib}}''
    \<and> rewriteSource ''{{include "docs/intro.apib"}}'' = rewriteSource ''{{> docs/intro.apib}}''
    \<and> rewriteSource ''{{ include "docs/intro.apib" }}'' = rewriteSource ''{{> docs/intro.apib}}''
    \<and> rewriteSource ''{{> docs/intro.apib}}'' = ''{{> docs/intro.apib}}\<newline>''\<close>
proof -
  have p: "plainRef ''docs/intro.apib''"
    by (simp add: plainRef_def plainText_def lineTerminator_def)
  from spelling_invariance[OF p] p show ?thesis by simp
qed

lemma canonical_seed_comment:
  assumes "plainRef r"
  shows "canonicalText (''<!-- seed('' @ r @ '') -->'')"
proof -
  note pc = plainText_chars[OF assms[unfolded plainRef_def, THEN conjunct2]]
  show ?thesis
    using pc(2,3) by (simp add: canonicalText_def rewriteRules_def rx occurs_skip_char ev)
qed

text \<open>
  C4. Normalizing a text that is already written entirely in canonical syntax (no legacy
  spelling occurs in it) returns the text unchanged except for the one appended newline.
  The canonical partial reference and the canonical seed comment of a plain reference
  string are such texts.
\<close>

theorem normalize_canonical_noop:
  "(canonicalText s \<longrightarrow> rewriteSource s = s @ [CHR 0x0A])
   \<and> (plainRef r \<longrightarrow> canonicalText (''{{> '' @ r @ ''}}'')
                     \<and> canonicalText (''<!-- seed('' @ r @ '') -->''))"
  using canonical_partial_ref[of r] canonical_seed_comment[of r]
  by (simp add: rewriteSource_newline canonicalText_def applyRules_no_occurrence)

theorem normalize_canonical_noop_witness:
  "plainRef ''child.txt'' \<and> canonicalText ''{{> child.txt}}''
   \<and> canonicalText ''<!-- seed(a.json) -->\<newline>{{> child.txt}}\<newline>{{user.0.name}} {{join tags}} {{upcase title}}''
   \<and> rewriteSource ''<!-- seed(a.json) -->\<newline>{{> child.txt}}\<newline>{{user.0.name}} {{join tags}} {{upcase title}}''
     = ''<!-- seed(a.json) -->\<newline>{{> child.txt}}\<newline>{{user.0.name}} {{join tags}} {{upcase title}}\<newline>''"
proof -
  have p: "plainRef ''child.txt''"
    by (simp add: plainRef_def plainText_def lineTerminator_def)
  note t = normalize_canonical_noop[where r = "''child.txt''"
      and s = "''<!-- seed(a.json) -->\<newline>{{> child.txt}}\<newline>{{user.0.name}} {{join tags}} {{upcase title}}''"]
  from t canonical_sample
  have "rewriteSource ''<!-- seed(a.json) -->\<newline>{{> child.txt}}\<newline>{{user.0.name}} {{join tags}} {{upcase title}}''
     = ''<!-- seed(a.json) -->\<newline>{{> child.txt}}\<newline>{{user.0.name}} {{join tags}} {{upcase title}}'' @ [CHR 0x0A]"
    by blast
  moreover from t p have "canonicalText (''{{> '' @ ''child.txt'' @ ''}}'')" by blast
  ultimately show ?thesis using canonical_sample p by simp
qed

lemma applyRules_step_from:
  assumes "rewriteRules = pre @ (re, repl) # post"
    and "list_all (\<lambda>(re, repl). \<not> occurs re s) pre"
    and "replaceAll re repl s = s'"
    and "list_all (\<lambda>(re, repl). \<not> occurs re s') post"
  shows "rewriteSource s = s' @ [CHR 0x0A]"
proof -
  have "applyRules rewriteRules s = applyRules post (replaceAll re repl (applyRules pre s))"
    unfolding assms(1) by (simp add: applyRules_def)
  also have "applyRules pre s = s"
    by (rule applyRules_no_occurrence[OF assms(2)])
  also have "applyRules post (replaceAll re repl s) = s'"
    unfolding assms(3) by (rule applyRules_no_occurrence[OF assms(4)])
  finally show ?thesis by (simp add: rewriteSource_newline)
qed


lemma comment_partial_two_lines:
  assumes "plainRef a" and "plainRef b"
  shows \<open>rewriteSource (''<!-- partial('' @ a @ '') -->\<newline><!-- partial('' @ b @ '') -->'') = ''{{> '' @ a @ ''}}\<newline>{{> '' @ b @ ''}}'' @ [CHR 0x0A]\<close>
proof -
  note pa = assms(1)[unfolded plainRef_def] and pb = assms(2)[unfolded plainRef_def]
  note ca = plainText_chars[OF pa[THEN conjunct2]] and cb = plainText_chars[OF pb[THEN conjunct2]]
  let ?t = "CHR 0x0A # ''<!-- partial('' @ b @ '') -->''"
  have m1: "rmatch commentPartial (''<!-- partial('' @ a @ '') -->'' @ ?t) [] = Some ([] @ [a], ?t)"
    unfolding commentPartial_def using pa ca(4)
    by (intro match_open_close) (simp_all add: lit_def ev)
  have m2: "rmatch commentPartial (''<!-- partial('' @ b @ '') -->'' @ []) [] = Some ([] @ [b], [])"
    unfolding commentPartial_def using pb cb(4)
    by (intro match_open_close) (simp_all add: lit_def ev)
  have n: "rmatch commentPartial ?t [] = None" "rmatch commentPartial [] [] = None"
    by (simp_all add: rx)
  have 1: \<open>replaceAll commentPartial ''{{> $1}}'' (''<!-- partial('' @ a @ '') -->\<newline><!-- partial('' @ b @ '') -->'') = ''{{> '' @ a @ ''}}\<newline>{{> '' @ b @ ''}}''\<close>
    using m1 m2 n by (simp add: ev)
  have 2: \<open>list_all (\<lambda>(re, repl). \<not> occurs re (''{{> '' @ a @ ''}}\<newline>{{> '' @ b @ ''}}'')) (drop 1 rewriteRules)\<close>
    using ca(2,3) cb(2,3) by (simp add: rewriteRules_def rx occurs_skip_char ev)
  have \<open>rewriteSource (''<!-- partial('' @ a @ '') -->\<newline><!-- partial('' @ b @ '') -->'') = (''{{> '' @ a @ ''}}\<newline>{{> '' @ b @ ''}}'') @ [CHR 0x0A]\<close>
    by (rule applyRules_step_from[OF _ _ 1 2, of "[]"]) (simp_all add: rewriteRules_def)
  then show ?thesis by simp
qed

lemma comment_partial_one_line:
  assumes "plainRef a" and "plainRef b" and "plainText mid"
  shows \<open>rewriteSource (''<!-- partial('' @ a @ '') -->'' @ mid @ ''<!-- partial('' @ b @ '') -->'') = ''{{> '' @ a @ '') -->'' @ mid @ ''<!-- partial('' @ b @ ''}}'' @ [CHR 0x0A]\<close>
proof -
  note pa = assms(1)[unfolded plainRef_def] and pb = assms(2)[unfolded plainRef_def]
  note ca = plainText_chars[OF pa[THEN conjunct2]] and cb = plainText_chars[OF pb[THEN conjunct2]]
    and cm = plainText_chars[OF assms(3)]
  let ?R = "a @ '') -->'' @ mid @ ''<!-- partial('' @ b"
  have R: "?R \<noteq> []" "\<forall>c\<in>set ?R. \<not> lineTerminator c"
    using ca(4) cb(4) cm(4) by (simp_all add: lineTerminator_def ball_Un)
  have m: "rmatch commentPartial (''<!-- partial('' @ ?R @ '') -->'' @ []) [] = Some ([] @ [?R], [])"
    unfolding commentPartial_def
    by (rule match_open_close[OF R]) (simp add: lit_def ev)
  have n: "rmatch commentPartial [] [] = None"
    by (simp add: rx)
  have 1: \<open>replaceAll commentPartial ''{{> $1}}'' (''<!-- partial('' @ a @ '') -->'' @ mid @ ''<!-- partial('' @ b @ '') -->'') = ''{{> '' @ a @ '') -->'' @ mid @ ''<!-- partial('' @ b @ ''}}''\<close>
    using m n by (simp add: ev)
  have 2: \<open>list_all (\<lambda>(re, repl). \<not> occurs re (''{{> '' @ a @ '') -->'' @ mid @ ''<!-- partial('' @ b @ ''}}'')) (drop 1 rewriteRules)\<close>
    using ca(2,3) cb(2,3) cm(2,3) by (simp add: rewriteRules_def rx occurs_skip_char ev)
  have \<open>rewriteSource (''<!-- partial('' @ a @ '') -->'' @ mid @ ''<!-- partial('' @ b @ '') -->'') = (''{{> '' @ a @ '') -->'' @ mid @ ''<!-- partial('' @ b @ ''}}'') @ [CHR 0x0A]\<close>
    by (rule applyRules_step_from[OF _ _ 1 2, of "[]"]) (simp_all add: rewriteRules_def)
  then show ?thesis by simp
qed

lemma comment_include_two_lines:
  assumes "plainRef a" and "plainRef b"
  shows \<open>rewriteSource (''<!-- include('' @ a @ '') -->\<newline><!-- include('' @ b @ '') -->'') = ''{{> '' @ a @ ''}}\<newline>{{> '' @ b @ ''}}'' @ [CHR 0x0A]\<close>
proof -
  note pa = assms(1)[unfolded plainRef_def] and pb = assms(2)[unfolded plainRef_def]
  note ca = plainText_chars[OF pa[THEN conjunct2]] and cb = plainText_chars[OF pb[THEN conjunct2]]
  have 0: \<open>list_all (\<lambda>(re, repl). \<not> occurs re (''<!-- include('' @ a @ '') -->\<newline><!-- include('' @ b @ '') -->'')) (take 1 rewriteRules)\<close>
    using ca(2,3) cb(2,3) by (simp add: rewriteRules_def rx occurs_skip_char ev)
  let ?t = "CHR 0x0A # ''<!-- include('' @ b @ '') -->''"
  have m1: "rmatch commentInclude (''<!-- include('' @ a @ '') -->'' @ ?t) [] = Some ([] @ [a], ?t)"
    unfolding commentInclude_def using pa ca(4)
    by (intro match_open_close) (simp_all add: lit_def ev)
  have m2: "rmatch commentInclude (''<!-- include('' @ b @ '') -->'' @ []) [] = Some ([] @ [b], [])"
    unfolding commentInclude_def using pb cb(4)
    by (intro match_open_close) (simp_all add: lit_def ev)
  have n: "rmatch commentInclude ?t [] = None" "rmatch commentInclude [] [] = None"
    by (simp_all add: rx)
  have 1: \<open>replaceAll commentInclude ''{{> $1}}'' (''<!-- include('' @ a @ '') -->\<newline><!-- include('' @ b @ '') -->'') = ''{{> '' @ a @ ''}}\<newline>{{> '' @ b @ ''}}''\<close>
    using m1 m2 n by (simp add: ev)
  have 2: \<open>list_all (\<lambda>(re, repl). \<not> occurs re (''{{> '' @ a @ ''}}\<newline>{{> '' @ b @ ''}}'')) (drop 2 rewriteRules)\<close>
    using ca(2,3) cb(2,3) by (simp add: rewriteRules_def rx occurs_skip_char ev)
  have \<open>rewriteSource (''<!-- include('' @ a @ '') -->\<newline><!-- include('' @ b @ '') -->'') = (''{{> '' @ a @ ''}}\<newline>{{> '' @ b @ ''}}'') @ [CHR 0x0A]\<close>
    by (rule applyRules_step_from[OF _ 0 1 2]) (simp add: rewriteRules_def)
  then show ?thesis by simp
qed

lemma comment_include_one_line:
  assumes "plainRef a" and "plainRef b" and "plainText mid"
  shows \<open>rewriteSource (''<!-- include('' @ a @ '') -->'' @ mid @ ''<!-- include('' @ b @ '') -->'') = ''{{> '' @ a @ '') -->'' @ mid @ ''<!-- include('' @ b @ ''}}'' @ [CHR 0x0A]\<close>
proof -
  note pa = assms(1)[unfolded plainRef_def] and pb = assms(2)[unfolded plainRef_def]
  note ca = plainText_chars[OF pa[THEN conjunct2]] and cb = plainText_chars[OF pb[THEN conjunct2]]
    and cm = plainText_chars[OF assms(3)]
  have 0: \<open>list_all (\<lambda>(re, repl). \<not> occurs re (''<!-- include('' @ a @ '') -->'' @ mid @ ''<!-- include('' @ b @ '') -->'')) (take 1 rewriteRules)\<close>
    using ca(2,3) cb(2,3) cm(2,3) by (simp add: rewriteRules_def rx occurs_skip_char ev)
  let ?R = "a @ '') -->'' @ mid @ ''<!-- include('' @ b"
  have R: "?R \<noteq> []" "\<forall>c\<in>set ?R. \<not> lineTerminator c"
    using ca(4) cb(4) cm(4) by (simp_all add: lineTerminator_def ball_Un)
  have m: "rmatch commentInclude (''<!-- include('' @ ?R @ '') -->'' @ []) [] = Some ([] @ [?R], [])"
    unfolding commentInclude_def
    by (rule match_open_close[OF R]) (simp add: lit_def ev)
  have n: "rmatch commentInclude [] [] = None"
    by (simp add: rx)
  have 1: \<open>replaceAll commentInclude ''{{> $1}}'' (''<!-- include('' @ a @ '') -->'' @ mid @ ''<!-- include('' @ b @ '') -->'') = ''{{> '' @ a @ '') -->'' @ mid @ ''<!-- include('' @ b @ ''}}''\<close>
    using m n by (simp add: ev)
  have 2: \<open>list_all (\<lambda>(re, repl). \<not> occurs re (''{{> '' @ a @ '') -->'' @ mid @ ''<!-- include('' @ b @ ''}}'')) (drop 2 rewriteRules)\<close>
    using ca(2,3) cb(2,3) cm(2,3) by (simp add: rewriteRules_def rx occurs_skip_char ev)
  have \<open>rewriteSource (''<!-- include('' @ a @ '') -->'' @ mid @ ''<!-- include('' @ b @ '') -->'') = (''{{> '' @ a @ '') -->'' @ mid @ ''<!-- include('' @ b @ ''}}'') @ [CHR 0x0A]\<close>
    by (rule applyRules_step_from[OF _ 0 1 2]) (simp add: rewriteRules_def)
  then show ?thesis by simp
qed

lemma helper_partial_two_lines:
  assumes "plainRef a" and "plainRef b"
  shows \<open>rewriteSource (''{{partial "'' @ a @ ''"}}\<newline>{{partial "'' @ b @ ''"}}'') = ''{{> '' @ a @ ''}}\<newline>{{> '' @ b @ ''}}'' @ [CHR 0x0A]\<close>
proof -
  note pa = assms(1)[unfolded plainRef_def] and pb = assms(2)[unfolded plainRef_def]
  note ca = plainText_chars[OF pa[THEN conjunct2]] and cb = plainText_chars[OF pb[THEN conjunct2]]
  have 0: \<open>list_all (\<lambda>(re, repl). \<not> occurs re (''{{partial "'' @ a @ ''"}}\<newline>{{partial "'' @ b @ ''"}}'')) (take 2 rewriteRules)\<close>
    using ca(2,3) cb(2,3) by (simp add: rewriteRules_def rx occurs_skip_char ev)
  have 1: \<open>replaceAll helperPartial ''{{> $1}}'' (''{{partial "'' @ a @ ''"}}\<newline>{{partial "'' @ b @ ''"}}'') = ''{{> '' @ a @ ''}}\<newline>{{> '' @ b @ ''}}''\<close>
    using pa pb ca(1) cb(1) by (simp add: rx ev gplus_greedy)
  have 2: \<open>list_all (\<lambda>(re, repl). \<not> occurs re (''{{> '' @ a @ ''}}\<newline>{{> '' @ b @ ''}}'')) (drop 3 rewriteRules)\<close>
    using ca(2,3) cb(2,3) by (simp add: rewriteRules_def rx occurs_skip_char ev)
  have \<open>rewriteSource (''{{partial "'' @ a @ ''"}}\<newline>{{partial "'' @ b @ ''"}}'') = (''{{> '' @ a @ ''}}\<newline>{{> '' @ b @ ''}}'') @ [CHR 0x0A]\<close>
    by (rule applyRules_step_from[OF _ 0 1 2]) (simp add: rewriteRules_def)
  then show ?thesis by simp
qed

lemma helper_partial_one_line:
  assumes "plainRef a" and "plainRef b" and "plainText mid"
  shows \<open>rewriteSource (''{{partial "'' @ a @ ''"}}'' @ mid @ ''{{partial "'' @ b @ ''"}}'') = ''{{> '' @ a @ ''"}}'' @ mid @ ''{{partial "'' @ b @ ''}}'' @ [CHR 0x0A]\<close>
proof -
  note pa = assms(1)[unfolded plainRef_def] and pb = assms(2)[unfolded plainRef_def]
  note ca = plainText_chars[OF pa[THEN conjunct2]] and cb = plainText_chars[OF pb[THEN conjunct2]]
    and cm = plainText_chars[OF assms(3)]
  have 0: \<open>list_all (\<lambda>(re, repl). \<not> occurs re (''{{partial "'' @ a @ ''"}}'' @ mid @ ''{{partial "'' @ b @ ''"}}'')) (take 2 rewriteRules)\<close>
    using ca(2,3) cb(2,3) cm(2,3) by (simp add: rewriteRules_def rx occurs_skip_char ev)
  define R where \<open>R = a @ ''"}}'' @ mid @ ''{{partial "'' @ b\<close>
  have R: "R \<noteq> []" "\<forall>c\<in>set R. inCls Dot c"
    using ca(1) cb(1) cm(1) by (simp_all add: R_def ball_Un lineTerminator_def)
  have \<open>replaceAll helperPartial ''{{> $1}}'' (''{{partial "'' @ R @ ''"}}'') = ''{{> '' @ R @ ''}}''\<close>
    using R by (simp add: rx ev gplus_greedy)
  then have 1: \<open>replaceAll helperPartial ''{{> $1}}'' (''{{partial "'' @ a @ ''"}}'' @ mid @ ''{{partial "'' @ b @ ''"}}'') = ''{{> '' @ a @ ''"}}'' @ mid @ ''{{partial "'' @ b @ ''}}''\<close>
    by (simp add: R_def)
  have 2: \<open>list_all (\<lambda>(re, repl). \<not> occurs re (''{{> '' @ a @ ''"}}'' @ mid @ ''{{partial "'' @ b @ ''}}'')) (drop 3 rewriteRules)\<close>
    using ca(2,3) cb(2,3) cm(2,3) by (simp add: rewriteRules_def rx occurs_skip_char ev)
  have \<open>rewriteSource (''{{partial "'' @ a @ ''"}}'' @ mid @ ''{{partial "'' @ b @ ''"}}'') = (''{{> '' @ a @ ''"}}'' @ mid @ ''{{partial "'' @ b @ ''}}'') @ [CHR 0x0A]\<close>
    by (rule applyRules_step_from[OF _ 0 1 2]) (simp add: rewriteRules_def)
  then show ?thesis by simp
qed

lemma helper_include_two_lines:
  assumes "plainRef a" and "plainRef b"
  shows \<open>rewriteSource (''{{include "'' @ a @ ''"}}\<newline>{{include "'' @ b @ ''"}}'') = ''{{> '' @ a @ ''}}\<newline>{{> '' @ b @ ''}}'' @ [CHR 0x0A]\<close>
proof -
  note pa = assms(1)[unfolded plainRef_def] and pb = assms(2)[unfolded plainRef_def]
  note ca = plainText_chars[OF pa[THEN conjunct2]] and cb = plainText_chars[OF pb[THEN conjunct2]]
  have 0: \<open>list_all (\<lambda>(re, repl). \<not> occurs re (''{{include "'' @ a @ ''"}}\<newline>{{include "'' @ b @ ''"}}'')) (take 3 rewriteRules)\<close>
    using ca(2,3) cb(2,3) by (simp add: rewriteRules_def rx occurs_skip_char ev)
  have 1: \<open>replaceAll helperInclude ''{{> $1}}'' (''{{include "'' @ a @ ''"}}\<newline>{{include "'' @ b @ ''"}}'') = ''{{> '' @ a @ ''}}\<newline>{{> '' @ b @ ''}}''\<close>
    using pa pb ca(1) cb(1) by (simp add: rx ev gplus_greedy)
  have 2: \<open>list_all (\<lambda>(re, repl). \<not> occurs re (''{{> '' @ a @ ''}}\<newline>{{> '' @ b @ ''}}'')) (drop 4 rewriteRules)\<close>
    using ca(2,3) cb(2,3) by (simp add: rewriteRules_def rx occurs_skip_char ev)
  have \<open>rewriteSource (''{{include "'' @ a @ ''"}}\<newline>{{include "'' @ b @ ''"}}'') = (''{{> '' @ a @ ''}}\<newline>{{> '' @ b @ ''}}'') @ [CHR 0x0A]\<close>
    by (rule applyRules_step_from[OF _ 0 1 2]) (simp add: rewriteRules_def)
  then show ?thesis by simp
qed

lemma helper_include_one_line:
  assumes "plainRef a" and "plainRef b" and "plainText mid"
  shows \<open>rewriteSource (''{{include "'' @ a @ ''"}}'' @ mid @ ''{{include "'' @ b @ ''"}}'') = ''{{> '' @ a @ ''"}}'' @ mid @ ''{{include "'' @ b @ ''}}'' @ [CHR 0x0A]\<close>
proof -
  note pa = assms(1)[unfolded plainRef_def] and pb = assms(2)[unfolded plainRef_def]
  note ca = plainText_chars[OF pa[THEN conjunct2]] and cb = plainText_chars[OF pb[THEN conjunct2]]
    and cm = plainText_chars[OF assms(3)]
  have 0: \<open>list_all (\<lambda>(re, repl). \<not> occurs re (''{{include "'' @ a @ ''"}}'' @ mid @ ''{{include "'' @ b @ ''"}}'')) (take 3 rewriteRules)\<close>
    using ca(2,3) cb(2,3) cm(2,3) by (simp add: rewriteRules_def rx occurs_skip_char ev)
  define R where \<open>R = a @ ''"}}'' @ mid @ ''{{include "'' @ b\<close>
  have R: "R \<noteq> []" "\<forall>c\<in>set R. inCls Dot c"
    using ca(1) cb(1) cm(1) by (simp_all add: R_def ball_Un lineTerminator_def)
  have \<open>replaceAll helperInclude ''{{> $1}}'' (''{{include "'' @ R @ ''"}}'') = ''{{> '' @ R @ ''}}''\<close>
    using R by (simp add: rx ev gplus_greedy)
  then have 1: \<open>replaceAll helperInclude ''{{> $1}}'' (''{{include "'' @ a @ ''"}}'' @ mid @ ''{{include "'' @ b @ ''"}}'') = ''{{> '' @ a @ ''"}}'' @ mid @ ''{{include "'' @ b @ ''}}''\<close>
    by (simp add: R_def)
  have 2: \<open>list_all (\<lambda>(re, repl). \<not> occurs re (''{{> '' @ a @ ''"}}'' @ mid @ ''{{include "'' @ b @ ''}}'')) (drop 4 rewriteRules)\<close>
    using ca(2,3) cb(2,3) cm(2,3) by (simp add: rewriteRules_def rx occurs_skip_char ev)
  have \<open>rewriteSource (''{{include "'' @ a @ ''"}}'' @ mid @ ''{{include "'' @ b @ ''"}}'') = (''{{> '' @ a @ ''"}}'' @ mid @ ''{{include "'' @ b @ ''}}'') @ [CHR 0x0A]\<close>
    by (rule applyRules_step_from[OF _ 0 1 2]) (simp add: rewriteRules_def)
  then show ?thesis by simp
qed

lemma helper_seed_two_lines:
  assumes "plainRef a" and "plainRef b"
  shows \<open>rewriteSource (''{{seed "'' @ a @ ''"}}\<newline>{{seed "'' @ b @ ''"}}'') = ''<!-- seed('' @ a @ '') -->\<newline><!-- seed('' @ b @ '') -->'' @ [CHR 0x0A]\<close>
proof -
  note pa = assms(1)[unfolded plainRef_def] and pb = assms(2)[unfolded plainRef_def]
  note ca = plainText_chars[OF pa[THEN conjunct2]] and cb = plainText_chars[OF pb[THEN conjunct2]]
  have 0: \<open>list_all (\<lambda>(re, repl). \<not> occurs re (''{{seed "'' @ a @ ''"}}\<newline>{{seed "'' @ b @ ''"}}'')) (take 4 rewriteRules)\<close>
    using ca(2,3) cb(2,3) by (simp add: rewriteRules_def rx occurs_skip_char ev)
  have 1: \<open>replaceAll helperSeed ''<!-- seed($1) -->'' (''{{seed "'' @ a @ ''"}}\<newline>{{seed "'' @ b @ ''"}}'') = ''<!-- seed('' @ a @ '') -->\<newline><!-- seed('' @ b @ '') -->''\<close>
    using pa pb ca(1) cb(1) by (simp add: rx ev gplus_greedy)
  have 2: \<open>list_all (\<lambda>(re, repl). \<not> occurs re (''<!-- seed('' @ a @ '') -->\<newline><!-- seed('' @ b @ '') -->'')) (drop 5 rewriteRules)\<close>
    using ca(2,3) cb(2,3) by (simp add: rewriteRules_def rx occurs_skip_char ev)
  have \<open>rewriteSource (''{{seed "'' @ a @ ''"}}\<newline>{{seed "'' @ b @ ''"}}'') = (''<!-- seed('' @ a @ '') -->\<newline><!-- seed('' @ b @ '') -->'') @ [CHR 0x0A]\<close>
    by (rule applyRules_step_from[OF _ 0 1 2]) (simp add: rewriteRules_def)
  then show ?thesis by simp
qed

lemma helper_seed_one_line:
  assumes "plainRef a" and "plainRef b" and "plainText mid"
  shows \<open>rewriteSource (''{{seed "'' @ a @ ''"}}'' @ mid @ ''{{seed "'' @ b @ ''"}}'') = ''<!-- seed('' @ a @ ''"}}'' @ mid @ ''{{seed "'' @ b @ '') -->'' @ [CHR 0x0A]\<close>
proof -
  note pa = assms(1)[unfolded plainRef_def] and pb = assms(2)[unfolded plainRef_def]
  note ca = plainText_chars[OF pa[THEN conjunct2]] and cb = plainText_chars[OF pb[THEN conjunct2]]
    and cm = plainText_chars[OF assms(3)]
  have 0: \<open>list_all (\<lambda>(re, repl). \<not> occurs re (''{{seed "'' @ a @ ''"}}'' @ mid @ ''{{seed "'' @ b @ ''"}}'')) (take 4 rewriteRules)\<close>
    using ca(2,3) cb(2,3) cm(2,3) by (simp add: rewriteRules_def rx occurs_skip_char ev)
  define R where \<open>R = a @ ''"}}'' @ mid @ ''{{seed "'' @ b\<close>
  have R: "R \<noteq> []" "\<forall>c\<in>set R. inCls Dot c"
    using ca(1) cb(1) cm(1) by (simp_all add: R_def ball_Un lineTerminator_def)
  have \<open>replaceAll helperSeed ''<!-- seed($1) -->'' (''{{seed "'' @ R @ ''"}}'') = ''<!-- seed('' @ R @ '') -->''\<close>
    using R by (simp add: rx ev gplus_greedy)
  then have 1: \<open>replaceAll helperSeed ''<!-- seed($1) -->'' (''{{seed "'' @ a @ ''"}}'' @ mid @ ''{{seed "'' @ b @ ''"}}'') = ''<!-- seed('' @ a @ ''"}}'' @ mid @ ''{{seed "'' @ b @ '') -->''\<close>
    by (simp add: R_def)
  have 2: \<open>list_all (\<lambda>(re, repl). \<not> occurs re (''<!-- seed('' @ a @ ''"}}'' @ mid @ ''{{seed "'' @ b @ '') -->'')) (drop 5 rewriteRules)\<close>
    using ca(2,3) cb(2,3) cm(2,3) by (simp add: rewriteRules_def rx occurs_skip_char ev)
  have \<open>rewriteSource (''{{seed "'' @ a @ ''"}}'' @ mid @ ''{{seed "'' @ b @ ''"}}'') = (''<!-- seed('' @ a @ ''"}}'' @ mid @ ''{{seed "'' @ b @ '') -->'') @ [CHR 0x0A]\<close>
    by (rule applyRules_step_from[OF _ 0 1 2]) (simp add: rewriteRules_def)
  then show ?thesis by simp
qed


text \<open>
  C8. Two comment-style partial markers on one line are not rewritten independently: the
  greedy group takes everything from the first marker's opening parenthesis to the last
  marker's closing parenthesis, and one canonical reference comes out.
\<close>

theorem same_line_markers_counterexample:
  "rewriteSource ''<!-- partial(a.md) --> <!-- partial(b.md) -->''
     = ''{{> a.md) --> <!-- partial(b.md}}\<newline>''
   \<and> rewriteSource ''<!-- partial(a.md) --> <!-- partial(b.md) -->''
     \<noteq> ''{{> a.md}} {{> b.md}}\<newline>''"
  by (simp add: rewriteSource_def applyRules_def rewriteRules_def rx ev)

text \<open>
  C8, as amended. For the directives that carry a reference string in a legacy spelling
  (the comment-style partial and include markers, and the quoted-helper partial, include
  and seed calls): two of the same kind on separate lines are each rewritten into their
  own canonical directive with their own reference string; two on one line are
  rewritten as a single canonical directive whose reference string runs from the first
  directive's reference to the second directive's reference, the text between them
  included.
\<close>

theorem markers_rewritten_per_line:
  assumes "plainRef a" and "plainRef b" and "plainText mid"
  shows \<open>rewriteSource (''<!-- partial('' @ a @ '') -->\<newline><!-- partial('' @ b @ '') -->'')
           = ''{{> '' @ a @ ''}}\<newline>{{> '' @ b @ ''}}\<newline>''
       \<and> rewriteSource (''<!-- partial('' @ a @ '') -->'' @ mid @ ''<!-- partial('' @ b @ '') -->'')
           = ''{{> '' @ a @ '') -->'' @ mid @ ''<!-- partial('' @ b @ ''}}\<newline>''
       \<and> rewriteSource (''<!-- include('' @ a @ '') -->\<newline><!-- include('' @ b @ '') -->'')
           = ''{{> '' @ a @ ''}}\<newline>{{> '' @ b @ ''}}\<newline>''
       \<and> rewriteSource (''<!-- include('' @ a @ '') -->'' @ mid @ ''<!-- include('' @ b @ '') -->'')
           = ''{{> '' @ a @ '') -->'' @ mid @ ''<!-- include('' @ b @ ''}}\<newline>''
       \<and> rewriteSource (''{{partial "'' @ a @ ''"}}\<newline>{{partial "'' @ b @ ''"}}'')
           = ''{{> '' @ a @ ''}}\<newline>{{> '' @ b @ ''}}\<newline>''
       \<and> rewriteSource (''{{partial "'' @ a @ ''"}}'' @ mid @ ''{{partial "'' @ b @ ''"}}'')
           = ''{{> '' @ a @ ''"}}'' @ mid @ ''{{partial "'' @ b @ ''}}\<newline>''
       \<and> rewriteSource (''{{include "'' @ a @ ''"}}\<newline>{{include "'' @ b @ ''"}}'')
           = ''{{> '' @ a @ ''}}\<newline>{{> '' @ b @ ''}}\<newline>''
       \<and> rewriteSource (''{{include "'' @ a @ ''"}}'' @ mid @ ''{{include "'' @ b @ ''"}}'')
           = ''{{> '' @ a @ ''"}}'' @ mid @ ''{{include "'' @ b @ ''}}\<newline>''
       \<and> rewriteSource (''{{seed "'' @ a @ ''"}}\<newline>{{seed "'' @ b @ ''"}}'')
           = ''<!-- seed('' @ a @ '') -->\<newline><!-- seed('' @ b @ '') -->\<newline>''
       \<and> rewriteSource (''{{seed "'' @ a @ ''"}}'' @ mid @ ''{{seed "'' @ b @ ''"}}'')
           = ''<!-- seed('' @ a @ ''"}}'' @ mid @ ''{{seed "'' @ b @ '') -->\<newline>''\<close>
proof -
  have s1: \<open>rewriteSource (''<!-- partial('' @ a @ '') -->\<newline><!-- partial('' @ b @ '') -->'')
           = ''{{> '' @ a @ ''}}\<newline>{{> '' @ b @ ''}}\<newline>''\<close>
    using comment_partial_two_lines[OF assms(1,2)] by simp
  have s2: \<open>rewriteSource (''<!-- partial('' @ a @ '') -->'' @ mid @ ''<!-- partial('' @ b @ '') -->'')
           = ''{{> '' @ a @ '') -->'' @ mid @ ''<!-- partial('' @ b @ ''}}\<newline>''\<close>
    using comment_partial_one_line[OF assms] by simp
  have s3: \<open>rewriteSource (''<!-- include('' @ a @ '') -->\<newline><!-- include('' @ b @ '') -->'')
           = ''{{> '' @ a @ ''}}\<newline>{{> '' @ b @ ''}}\<newline>''\<close>
    using comment_include_two_lines[OF assms(1,2)] by simp
  have s4: \<open>rewriteSource (''<!-- include('' @ a @ '') -->'' @ mid @ ''<!-- include('' @ b @ '') -->'')
           = ''{{> '' @ a @ '') -->'' @ mid @ ''<!-- include('' @ b @ ''}}\<newline>''\<close>
    using comment_include_one_line[OF assms] by simp
  have s5: \<open>rewriteSource (''{{partial "'' @ a @ ''"}}\<newline>{{partial "'' @ b @ ''"}}'')
           = ''{{> '' @ a @ ''}}\<newline>{{> '' @ b @ ''}}\<newline>''\<close>
    using helper_partial_two_lines[OF assms(1,2)] by simp
  have s6: \<open>rewriteSource (''{{partial "'' @ a @ ''"}}'' @ mid @ ''{{partial "'' @ b @ ''"}}'')
           = ''{{> '' @ a @ ''"}}'' @ mid @ ''{{partial "'' @ b @ ''}}\<newline>''\<close>
    using helper_partial_one_line[OF assms] by simp
  have s7: \<open>rewriteSource (''{{include "'' @ a @ ''"}}\<newline>{{include "'' @ b @ ''"}}'')
           = ''{{> '' @ a @ ''}}\<newline>{{> '' @ b @ ''}}\<newline>''\<close>
    using helper_include_two_lines[OF assms(1,2)] by simp
  have s8: \<open>rewriteSource (''{{include "'' @ a @ ''"}}'' @ mid @ ''{{include "'' @ b @ ''"}}'')
           = ''{{> '' @ a @ ''"}}'' @ mid @ ''{{include "'' @ b @ ''}}\<newline>''\<close>
    using helper_include_one_line[OF assms] by simp
  have s9: \<open>rewriteSource (''{{seed "'' @ a @ ''"}}\<newline>{{seed "'' @ b @ ''"}}'')
           = ''<!-- seed('' @ a @ '') -->\<newline><!-- seed('' @ b @ '') -->\<newline>''\<close>
    using helper_seed_two_lines[OF assms(1,2)] by simp
  have s10: \<open>rewriteSource (''{{seed "'' @ a @ ''"}}'' @ mid @ ''{{seed "'' @ b @ ''"}}'')
           = ''<!-- seed('' @ a @ ''"}}'' @ mid @ ''{{seed "'' @ b @ '') -->\<newline>''\<close>
    using helper_seed_one_line[OF assms] by simp
  from s1 s2 s3 s4 s5 s6 s7 s8 s9 s10 show ?thesis
    by - (intro conjI, assumption+)
qed

theorem markers_rewritten_per_line_witness:
  \<open>plainRef ''a.md'' \<and> plainRef ''b.md'' \<and> plainText '' and ''
   \<and> rewriteSource ''<!-- partial(a.md) -->\<newline><!-- partial(b.md) -->''
       = ''{{> a.md}}\<newline>{{> b.md}}\<newline>''
   \<and> rewriteSource ''<!-- partial(a.md) --> and <!-- partial(b.md) -->''
       = ''{{> a.md) --> and <!-- partial(b.md}}\<newline>''
   \<and> rewriteSource ''<!-- include(a.md) -->\<newline><!-- include(b.md) -->''
       = ''{{> a.md}}\<newline>{{> b.md}}\<newline>''
   \<and> rewriteSource ''<!-- include(a.md) --> and <!-- include(b.md) -->''
       = ''{{> a.md) --> and <!-- include(b.md}}\<newline>''
   \<and> rewriteSource ''{{partial "a.md"}}\<newline>{{partial "b.md"}}''
       = ''{{> a.md}}\<newline>{{> b.md}}\<newline>''
   \<and> rewriteSource ''{{partial "a.md"}} and {{partial "b.md"}}''
       = ''{{> a.md"}} and {{partial "b.md}}\<newline>''
   \<and> rewriteSource ''{{include "a.md"}}\<newline>{{include "b.md"}}''
       = ''{{> a.md}}\<newline>{{> b.md}}\<newline>''
   \<and> rewriteSource ''{{include "a.md"}} and {{include "b.md"}}''
       = ''{{> a.md"}} and {{include "b.md}}\<newline>''
   \<and> rewriteSource ''{{seed "a.md"}}\<newline>{{seed "b.md"}}''
       = ''<!-- seed(a.md) -->\<newline><!-- seed(b.md) -->\<newline>''
   \<and> rewriteSource ''{{seed "a.md"}} and {{seed "b.md"}}''
       = ''<!-- seed(a.md"}} and {{seed "b.md) -->\<newline>''\<close>
proof -
  have p: "plainRef ''a.md''" "plainRef ''b.md''" "plainText '' and ''"
    by (simp_all add: plainRef_def plainText_def lineTerminator_def)
  from markers_rewritten_per_line[OF p] p show ?thesis by simp
qed

lemma gplus_some:
  "gplus p k acc s = Some y \<Longrightarrow>
   \<exists>u v. s = u @ v \<and> u \<noteq> [] \<and> (\<forall>c\<in>set u. p c) \<and> k (acc @ u) v = Some y"
proof (induction s arbitrary: acc)
  case Nil
  then show ?case by simp
next
  case (Cons x xs)
  from Cons.prems have px: "p x" by (simp split: if_splits)
  show ?case
  proof (cases "gplus p k (acc @ [x]) xs")
    case None
    with Cons.prems px have "k (acc @ [x]) xs = Some y" by simp
    with px show ?thesis by (intro exI[of _ "[x]"] exI[of _ xs]) simp
  next
    case (Some z)
    with Cons.prems px have "gplus p k (acc @ [x]) xs = Some y" by simp
    from Cons.IH[OF this] obtain u v where
      "xs = u @ v" "u \<noteq> []" "\<forall>c\<in>set u. p c" "k ((acc @ [x]) @ u) v = Some y" by blast
    with px show ?thesis by (intro exI[of _ "x # u"] exI[of _ v]) simp
  qed
qed

lemma rmatch_rest_le: "rmatch re s caps = Some (cs, rest) \<Longrightarrow> length rest \<le> length s"
proof (induction re arbitrary: s caps)
  case Nil
  then show ?case by simp
next
  case (Cons it r)
  show ?case
  proof (cases it)
    case (L d)
    with Cons.prems obtain x xs where "s = x # xs" "rmatch r xs caps = Some (cs, rest)"
      by (cases s) (auto split: if_splits)
    with Cons.IH[of xs caps] show ?thesis by simp
  next
    case AnyCh
    with Cons.prems obtain x xs where "s = x # xs" "rmatch r xs caps = Some (cs, rest)"
      by (cases s) (auto split: if_splits)
    with Cons.IH[of xs caps] show ?thesis by simp
  next
    case OptS
    with Cons.prems have "rmatch r s caps = Some (cs, rest)
        \<or> (\<exists>x xs. s = x # xs \<and> rmatch r xs caps = Some (cs, rest))"
      by (cases s) (auto split: if_splits option.splits)
    with Cons.IH show ?thesis by fastforce
  next
    case (G k)
    with Cons.prems
    have "gplus (inCls k) (\<lambda>cap rest. rmatch r rest (caps @ [cap])) [] s = Some (cs, rest)"
      by simp
    from gplus_some[OF this] obtain u v where
      "s = u @ v" "rmatch r v (caps @ ([] @ u) # []) = Some (cs, rest)" by blast
    with Cons.IH[of v] show ?thesis by fastforce
  qed
qed

text \<open>A pattern that starts with a literal never matches the empty text, so a match
  always moves the scan of \<open>replaceAll\<close> and \<open>matchAll\<close> forward.\<close>

lemma match_never_empty:
  "rmatch (L c # r) s caps = Some (cs, rest) \<Longrightarrow> length rest < length s"
  by (cases s) (auto split: if_splits dest: rmatch_rest_le)

lemma match_shape:
  assumes "rmatch (lit ps @ [G Dot] @ lit cl) s caps = Some y"
  shows "\<exists>R w. s = ps @ R @ cl @ w \<and> R \<noteq> [] \<and> (\<forall>c\<in>set R. \<not> lineTerminator c)"
proof -
  from rmatch_lit_prefix[OF assms] obtain s1 where s: "s = ps @ s1" by (auto simp: prefix_def)
  with assms have "rmatch ([G Dot] @ lit cl) s1 caps = Some y" by (simp add: rmatch_lit)
  then have "gplus (inCls Dot) (\<lambda>cap rest. rmatch (lit cl) rest (caps @ [cap])) [] s1 = Some y"
    by simp
  from gplus_some[OF this] obtain u v where
    uv: "s1 = u @ v" "u \<noteq> []" "\<forall>c\<in>set u. inCls Dot c" "rmatch (lit cl) v (caps @ ([] @ u) # []) = Some y"
    by blast
  from uv(4) have "prefix cl v" using rmatch_lit_prefix[of cl "[]" v] by simp
  then obtain w where "v = cl @ w" by (auto simp: prefix_def)
  with s uv show ?thesis by auto
qed

lemma first_terminator:
  assumes "x @ rest = y @ w" and "\<forall>c\<in>set y. \<not> lineTerminator c"
    and "rest = [] \<or> lineTerminator (hd rest)"
  shows "prefix y x"
proof -
  from assms(1) have "\<exists>us. (x = y @ us \<and> us @ rest = w) \<or> (x @ us = y \<and> rest = us @ w)"
    by (simp only: append_eq_append_conv2)
  then consider us where "x = y @ us" | us where "x @ us = y" "rest = us @ w"
    by blast
  then show ?thesis
  proof cases
    case 1
    then show ?thesis by simp
  next
    case 2
    show ?thesis
    proof (cases us)
      case Nil
      with 2 show ?thesis by simp
    next
      case (Cons c cs)
      with 2 assms(3) have "lineTerminator c" "c \<in> set y" by auto
      with assms(2) show ?thesis by blast
    qed
  qed
qed

lemma replaceAll_skip_nomatch:
  "(\<And>u v. ps = u @ v \<Longrightarrow> v \<noteq> [] \<Longrightarrow> rmatch re (v @ s) [] = None)
   \<Longrightarrow> replaceAll re repl (ps @ s) = ps @ replaceAll re repl s"
proof (induction ps)
  case Nil
  then show ?case by simp
next
  case (Cons x ps)
  have "rmatch re ((x # ps) @ s) [] = None"
    using Cons.prems[of "[]" "x # ps"] by simp
  moreover have "replaceAll re repl (ps @ s) = ps @ replaceAll re repl s"
  proof (rule Cons.IH)
    fix u v assume "ps = u @ v" "v \<noteq> []"
    then show "rmatch re (v @ s) [] = None" using Cons.prems[of "x # u" v] by simp
  qed
  ultimately show ?case by simp
qed

lemma no_straddle:
  assumes "\<not> sublist ps pre" and "ps \<noteq> []" and "hd ps \<notin> set (tl ps)"
    and "pre = u @ v" and "v \<noteq> []"
  shows "\<not> prefix ps (v @ ps @ z)"
proof
  assume "prefix ps (v @ ps @ z)"
  then have "prefix ps v \<or> (\<exists>us. ps = v @ us \<and> prefix us (ps @ z))"
    by (simp only: prefix_append)
  then consider "prefix ps v" | us where "ps = v @ us" "prefix us (ps @ z)"
    by blast
  then show False
  proof cases
    case 1
    then obtain w where "v = ps @ w" by (auto simp: prefix_def)
    with assms(4) have "pre = u @ ps @ w" by simp
    then have "sublist ps pre" unfolding sublist_def by blast
    with assms(1) show False ..
  next
    case 2
    show False
    proof (cases us)
      case Nil
      with 2 assms(4) have "pre = u @ ps @ []" by simp
      then have "sublist ps pre" unfolding sublist_def by blast
      with assms(1) show False ..
    next
      case (Cons c cs)
      with 2(2) assms(2) have "c = hd ps" by (cases ps) auto
      moreover from 2(1) Cons assms(5) have "c \<in> set (tl ps)" by (cases v) auto
      ultimately show False using assms(3) by simp
    qed
  qed
qed


lemma gplus_line:
  assumes "\<not> p e"
    and "\<And>cap rest. k cap (rest @ e # z) = map_option f (k cap rest)"
  shows "gplus p k acc (s @ e # z) = map_option f (gplus p k acc s)"
  using assms
proof (induction s arbitrary: acc)
  case Nil
  then show ?case by simp
next
  case (Cons x xs)
  then show ?case by (simp split: option.splits)
qed

lemma rmatch_line:
  "lineLocal re \<Longrightarrow>
   rmatch re (s @ CHR 0x0A # z) caps
     = map_option (\<lambda>(cs, r). (cs, r @ CHR 0x0A # z)) (rmatch re s caps)"
proof (induction re arbitrary: s caps)
  case Nil
  then show ?case by simp
next
  case (Cons it r)
  then have ll: "lineLocal r" and it: "it \<noteq> OptS" "it \<noteq> L (CHR 0x0A)"
    by (simp_all add: lineLocal_def)
  note IH = Cons.IH[OF ll]
  show ?case
  proof (cases it)
    case (L d)
    with it IH show ?thesis by (cases s) auto
  next
    case AnyCh
    with IH show ?thesis by (cases s) (auto simp: lineTerminator_def)
  next
    case OptS
    with it show ?thesis by simp
  next
    case (G k)
    have "\<not> inCls k (CHR 0x0A)" by (cases k) (simp_all add: lineTerminator_def)
    then show ?thesis using G IH by (simp add: gplus_line)
  qed
qed

lemma replaceAll_line:
  "lineLocal re \<Longrightarrow> rmatch re [] [] = None \<Longrightarrow>
   replaceAll re repl (s @ CHR 0x0A # z) = replaceAll re repl s @ CHR 0x0A # replaceAll re repl z"
proof (induction re repl s rule: replaceAll.induct)
  case (1 re repl)
  have "rmatch re ([] @ CHR 0x0A # z) [] = None"
    unfolding rmatch_line[OF "1.prems"(1)] using "1.prems"(2) by simp
  with "1.prems"(2) show ?case by simp
next
  case (2 re repl x xs)
  note ms = rmatch_line[OF "2.prems"(1), of "x # xs" z "[]"]
  show ?case
  proof (cases "rmatch re (x # xs) []")
    case None
    with ms "2.IH"(1) "2.prems" show ?thesis by simp
  next
    case (Some a)
    then obtain cs rest where m: "rmatch re (x # xs) [] = Some (cs, rest)" by (cases a) auto
    from ms m have ms': "rmatch re (x # xs @ CHR 0x0A # z) [] = Some (cs, rest @ CHR 0x0A # z)"
      by simp
    show ?thesis
    proof (cases "length rest < length (x # xs)")
      case True
      have ih: "replaceAll re repl (rest @ CHR 0x0A # z)
                = replaceAll re repl rest @ CHR 0x0A # replaceAll re repl z"
        by (rule "2.IH"(2)[OF m refl True "2.prems"])
      have "replaceAll re repl (x # xs @ CHR 0x0A # z)
            = expandRepl repl cs @ replaceAll re repl (rest @ CHR 0x0A # z)"
        using True by (subst replaceAll.simps(2)) (simp add: ms')
      moreover have "replaceAll re repl (x # xs) = expandRepl repl cs @ replaceAll re repl rest"
        using True m by (subst replaceAll.simps(2)) simp
      ultimately show ?thesis using ih by simp
    next
      case False
      have ih: "replaceAll re repl (xs @ CHR 0x0A # z)
                = replaceAll re repl xs @ CHR 0x0A # replaceAll re repl z"
        by (rule "2.IH"(3)[OF m refl False "2.prems"])
      have "replaceAll re repl (x # xs @ CHR 0x0A # z)
            = expandRepl repl cs @ x # replaceAll re repl (xs @ CHR 0x0A # z)"
        using False by (subst replaceAll.simps(2)) (simp add: ms')
      moreover have "replaceAll re repl (x # xs) = expandRepl repl cs @ x # replaceAll re repl xs"
        using False m by (subst replaceAll.simps(2)) simp
      ultimately show ?thesis using ih by simp
    qed
  qed
qed

lemma seedRegex_shape: "seedRegex = lit ''<!-- seed('' @ [G Dot] @ lit '') -->''"
  by (simp add: seedRegex_def)

lemma seed_match_in_line:
  assumes "rmatch seedRegex (v @ rest) [] = Some y"
    and "\<forall>c\<in>set v. \<not> lineTerminator c"
    and "rest = [] \<or> lineTerminator (hd rest)"
  shows "sublist '') -->'' v"
proof -
  from match_shape[OF assms(1)[unfolded seedRegex_shape]] obtain R w where
    s: "v @ rest = ''<!-- seed('' @ R @ '') -->'' @ w" and R: "\<forall>c\<in>set R. \<not> lineTerminator c"
    by blast
  have "prefix (''<!-- seed('' @ R @ '') -->'') v"
  proof (rule first_terminator[OF _ _ assms(3)])
    show "v @ rest = (''<!-- seed('' @ R @ '') -->'') @ w" using s by simp
    show "\<forall>c\<in>set (''<!-- seed('' @ R @ '') -->''). \<not> lineTerminator c"
      using R by (simp add: lineTerminator_def ball_Un)
  qed
  then obtain t where "v = (''<!-- seed('' @ R @ '') -->'') @ t" by (auto simp: prefix_def)
  then have "v = (''<!-- seed('' @ R) @ '') -->'' @ t" by simp
  then show ?thesis unfolding sublist_def by blast
qed

lemma seed_capture_not_extended:
  assumes "\<forall>c\<in>set post. \<not> lineTerminator c" and "\<not> sublist '') -->'' post"
    and "rest = [] \<or> lineTerminator (hd rest)"
  shows "gplus (inCls Dot) (\<lambda>cap r. rmatch (lit '') -->'') r (caps @ [cap])) acc
           ('') -->'' @ post @ rest) = None"
proof (rule gplus_none)
  fix u v cap
  assume uv: "'') -->'' @ post @ rest = u @ v" and u: "u \<noteq> []" "\<forall>c\<in>set u. inCls Dot c"
  show "rmatch (lit '') -->'') v (caps @ [cap]) = None"
  proof (rule ccontr)
    assume "rmatch (lit '') -->'') v (caps @ [cap]) \<noteq> None"
    then obtain y where "rmatch (lit '') -->'' @ []) v (caps @ [cap]) = Some y" by auto
    from rmatch_lit_prefix[OF this] obtain w where v: "v = '') -->'' @ w"
      by (auto simp: prefix_def)
    from uv have "\<exists>us. ('') -->'' = u @ us \<and> us @ post @ rest = v)
                    \<or> ('') -->'' @ us = u \<and> post @ rest = us @ v)"
      by (simp only: append_eq_append_conv2)
    then consider us where "'') -->'' = u @ us" "us @ post @ rest = v" "us \<noteq> []"
      | us where "'') -->'' @ us = u" "post @ rest = us @ v"
      by (metis append_Nil2 append_Nil)
    then show False
    proof cases
      case 1
      from 1(2,3) v have "hd us = CHR '')''" by (cases us) auto
      moreover from 1(1) u(1) 1(3) have "hd us \<in> set '' -->''"
        by (cases u; cases us) (auto simp: Cons_eq_append_conv)
      ultimately show False by simp
    next
      case 2
      from 2(1) u(2) have "\<forall>c\<in>set us. \<not> lineTerminator c" by auto
      then have "\<forall>c\<in>set (us @ '') -->''). \<not> lineTerminator c"
        by (simp add: lineTerminator_def ball_Un)
      moreover from 2(2) v have "post @ rest = (us @ '') -->'') @ w" by simp
      ultimately have "prefix (us @ '') -->'') post"
        using first_terminator[OF _ _ assms(3)] by blast
      then obtain t where "post = us @ '') -->'' @ t" by (auto simp: prefix_def)
      then have "sublist '') -->'' post" unfolding sublist_def by blast
      with assms(2) show False ..
    qed
  qed
qed


lemma cleanup_span:
  assumes pre: "\<not> sublist ''<!-- seed('' pre"
    and ab: "a \<noteq> []" "b \<noteq> []"
    and line: "\<forall>c\<in>set (a @ mid @ b @ post). \<not> lineTerminator c"
    and post: "\<not> sublist '') -->'' post"
    and rest: "rest = [] \<or> lineTerminator (hd rest)"
  shows "cleanupSource (pre @ ''<!-- seed('' @ a @ '') -->'' @ mid @ ''<!-- seed('' @ b @ '') -->''
           @ post @ rest) = pre @ post @ cleanupSource rest"
proof -
  let ?R = "a @ '') -->'' @ mid @ ''<!-- seed('' @ b"
  let ?s = "''<!-- seed('' @ ?R @ '') -->'' @ post @ rest"
  from line have lp: "\<forall>c\<in>set post. \<not> lineTerminator c" by simp
  have R: "?R \<noteq> []" "\<forall>c\<in>set ?R. \<not> lineTerminator c"
    using ab line by (simp_all add: lineTerminator_def ball_Un)
  have A: "replaceAll seedRegex [] (pre @ ?s) = pre @ replaceAll seedRegex [] ?s"
  proof (rule replaceAll_skip_nomatch)
    fix u v assume uv: "pre = u @ v" "v \<noteq> []"
    show "rmatch seedRegex (v @ ?s) [] = None"
    proof (rule ccontr)
      assume "rmatch seedRegex (v @ ?s) [] \<noteq> None"
      then obtain y where "rmatch (lit ''<!-- seed('' @ [G Dot] @ lit '') -->'') (v @ ?s) [] = Some y"
        unfolding seedRegex_shape by auto
      from rmatch_lit_prefix[OF this]
      have "prefix ''<!-- seed('' (v @ ''<!-- seed('' @ (?R @ '') -->'' @ post @ rest))"
        by simp
      moreover have "\<not> prefix ''<!-- seed('' (v @ ''<!-- seed('' @ (?R @ '') -->'' @ post @ rest))"
        by (rule no_straddle[OF pre _ _ uv]) simp_all
      ultimately show False by blast
    qed
  qed
  have m: "rmatch seedRegex ?s [] = Some ([] @ [?R], post @ rest)"
    unfolding seedRegex_shape
    by (rule match_open_close[OF R seed_capture_not_extended[OF lp post rest]])
  have len: "length (post @ rest) < length ?s" by simp
  obtain xs where xs: "?s = CHR ''<'' # xs" by simp
  have B: "replaceAll seedRegex [] ?s = replaceAll seedRegex [] (post @ rest)"
    unfolding xs using m[unfolded xs] len[unfolded xs]
    by (subst replaceAll.simps(2)) simp
  have C: "replaceAll seedRegex [] (post @ rest) = post @ replaceAll seedRegex [] rest"
  proof (rule replaceAll_skip_nomatch)
    fix u v assume uv: "post = u @ v" "v \<noteq> []"
    show "rmatch seedRegex (v @ rest) [] = None"
    proof (rule ccontr)
      assume "rmatch seedRegex (v @ rest) [] \<noteq> None"
      then obtain y where y: "rmatch seedRegex (v @ rest) [] = Some y" by auto
      from uv lp have "\<forall>c\<in>set v. \<not> lineTerminator c" by simp
      from seed_match_in_line[OF y this rest] obtain p1 p2 where "v = p1 @ '') -->'' @ p2"
        unfolding sublist_def by blast
      with uv have "post = (u @ p1) @ '') -->'' @ p2" by simp
      then have "sublist '') -->'' post" unfolding sublist_def by blast
      with post show False ..
    qed
  qed
  have "cleanupSource (pre @ ?s) = pre @ post @ cleanupSource rest"
    unfolding cleanupSource_def A B C ..
  then show ?thesis by simp
qed

lemma cleanup_lines:
  "cleanupSource (u @ [CHR 0x0A] @ v) = cleanupSource u @ [CHR 0x0A] @ cleanupSource v"
  unfolding cleanupSource_def
  using replaceAll_line[where re = seedRegex and s = u and z = v and repl = "[]"]
  by (simp add: lineLocal_def rx)

text \<open>
  C10. On a line that holds two or more seed-comment markers, \<open>cleanupSource\<close> removes
  one span: from the start of the first marker (no marker opening occurs before it)
  through the end of the last marker of that line (no marker end occurs after it), the
  ordinary text between the markers included. Lines are treated independently, and a
  line in which the seed pattern does not occur is returned unchanged.
\<close>

theorem cleanup_strips_whole_span:
  assumes "\<not> sublist ''<!-- seed('' pre"
    and "a \<noteq> []" and "b \<noteq> []"
    and "\<forall>c\<in>set (a @ mid @ b @ post). \<not> lineTerminator c"
    and "\<not> sublist '') -->'' post"
    and "rest = [] \<or> lineTerminator (hd rest)"
  shows "cleanupSource (pre @ ''<!-- seed('' @ a @ '') -->'' @ mid @ ''<!-- seed('' @ b @ '') -->''
           @ post @ rest) = pre @ post @ cleanupSource rest
     \<and> cleanupSource (u @ [CHR 0x0A] @ v) = cleanupSource u @ [CHR 0x0A] @ cleanupSource v
     \<and> (\<not> occurs seedRegex line \<longrightarrow> cleanupSource line = line)"
  using cleanup_span[OF assms] cleanup_lines[of u v]
  by (simp add: cleanupSource_def replaceAll_no_occurrence)

theorem cleanup_strips_whole_span_witness:
  "\<not> sublist ''<!-- seed('' ''# Title <b>x</b> ''
   \<and> ''a.json'' \<noteq> [] \<and> ''b.json'' \<noteq> []
   \<and> list_all (\<lambda>c. \<not> lineTerminator c) (''a.json'' @ '' and '' @ ''b.json'' @ '' (end)'')
   \<and> \<not> sublist '') -->'' '' (end)''
   \<and> lineTerminator (hd ''\<newline>next'')
   \<and> cleanupSource ''# Title <b>x</b> <!-- seed(a.json) --> and <!-- seed(b.json) --> (end)\<newline>next''
       = ''# Title <b>x</b>  (end)\<newline>next''
   \<and> \<not> occurs seedRegex ''plain <!-- text -->''
   \<and> cleanupSource ''plain <!-- text -->'' = ''plain <!-- text -->''"
proof -
  have h: "\<not> sublist ''<!-- seed('' ''# Title <b>x</b> ''" "''a.json'' \<noteq> []" "''b.json'' \<noteq> []"
    "\<forall>c\<in>set (''a.json'' @ '' and '' @ ''b.json'' @ '' (end)''). \<not> lineTerminator c"
    "\<not> sublist '') -->'' '' (end)''"
    "''\<newline>next'' = [] \<or> lineTerminator (hd ''\<newline>next'')"
    by (simp_all add: sublist_Cons_right lineTerminator_def)
  have n: "\<not> occurs seedRegex ''plain <!-- text -->''" "\<not> occurs seedRegex ''next''"
    by (simp_all add: rx ev)
  have c: "cleanupSource ''\<newline>next'' = ''\<newline>next''"
    by (simp add: cleanupSource_def rx ev)
  from cleanup_strips_whole_span[OF h, where u = "[]" and v = "[]" and line = "''plain <!-- text -->''"]
    h n c
  show ?thesis by (simp add: lineTerminator_def)
qed







lemma mergedKeys_subset: "mergedKeys src \<subseteq> fst ` set src"
  unfolding mergedKeys_def by auto





lemma valueAt_flag: "valueAt (JObj a es) p = Some v \<Longrightarrow> \<not> isObject v \<Longrightarrow> valueAt (JObj b es) p = Some v"
  by (cases p) auto


















lemma loadSeedsLoop_append:
  "loadSeedsLoop e inputDir (xs @ ys) seeds
   = (case loadSeedsLoop e inputDir xs seeds of
        None \<Rightarrow> None
      | Some (Inl err) \<Rightarrow> Some (Inl err)
      | Some (Inr seeds') \<Rightarrow> loadSeedsLoop e inputDir ys seeds')"
  by (induction xs arbitrary: seeds) (auto simp: Let_def split: option.splits)

text \<open>
  Where the seeds are loaded, a failure is the whole result. When the file of a seed
  directive does not exist, \<open>loadSeeds\<close> fails with the not-found error of that file;
  when its content is not JSON, with the parse error (the directive is the first that
  fails, the ones processed before it having loaded); \<open>rewriteInput\<close> and \<open>read\<close>
  return the same error, for every depth bound.
\<close>

lemma root_seed_failure_aborts:
  assumes "extractSeeds (rewriteSource source) = earlier @ item # later"
    and "loadSeedsLoop e inputDir earlier (JObj False []) = Some (Inr seeds0)"
    and "file = pathResolve e [inputDir, group1 item]"
    and "readInput e input = Inr (source, inputDir)"
  shows "readFileSync e file = None \<Longrightarrow> read n e input = Some (Inl (NotFound file))"
    and "readFileSync e file = Some body \<Longrightarrow> jsonParse e body = None \<Longrightarrow>
         read n e input = Some (Inl (ParseError file))"
proof -
  have 1: "loadSeeds e (rewriteSource source) inputDir = Some (Inl (NotFound file))"
    if "readFileSync e file = None"
    using that assms(1-3) by (simp add: loadSeeds_def loadSeedsLoop_append)
  have 2: "loadSeeds e (rewriteSource source) inputDir = Some (Inl (ParseError file))"
    if "readFileSync e file = Some body" "jsonParse e body = None"
    using that assms(1-3) by (simp add: loadSeeds_def loadSeedsLoop_append)
  show "readFileSync e file = None \<Longrightarrow> read n e input = Some (Inl (NotFound file))"
    using 1 assms(4) by (simp add: read_def rewriteInput_def)
  show "readFileSync e file = Some body \<Longrightarrow> jsonParse e body = None \<Longrightarrow>
         read n e input = Some (Inl (ParseError file))"
    using 2 assms(4) by (simp add: read_def rewriteInput_def)
qed

text \<open>
  The walk over the partials stops at the first failure as well: a partial file whose
  seeds fail, or below which the walk fails, makes the walk of the file that refers to
  it fail with the same error, once the directives before it have been rendered; and a
  failed walk is the result of \<open>read\<close>. So a failure at any depth reaches the caller.
\<close>

lemma partial_seed_failure_aborts:
  assumes "readFileSync e (pathResolve e [inputDir, group1 item]) = Some body"
    and "loadSeeds e body (pathDirname e (pathResolve e [inputDir, group1 item])) = Some (Inl err)"
  shows "partialsLoop (Suc n) e inputDir (item # later) registered partials seeds tr = Some (Inl err)"
  using assms by (simp del: loadPartials.simps)

lemma failure_below_aborts:
  assumes "readFileSync e (pathResolve e [inputDir, group1 item]) = Some body"
    and "loadSeeds e body (pathDirname e (pathResolve e [inputDir, group1 item])) = Some (Inr childrenSeeds)"
    and "loadPartials n e (rewriteSource body) seeds
           (pathDirname e (pathResolve e [inputDir, group1 item])) tr = Some (Inl err)"
  shows "partialsLoop (Suc n) e inputDir (item # later) registered partials seeds tr = Some (Inl err)"
  using assms by (simp del: loadPartials.simps)

lemma failure_after_siblings_aborts:
  assumes "partialsLoop (Suc n) e inputDir earlier registered partials seeds tr
           = Some (Inr (partials1, seeds1, tr1))"
    and "\<And>registered' partials'.
           partialsLoop (Suc n) e inputDir rest registered' partials' seeds1 tr1 = Some (Inl err)"
  shows "partialsLoop (Suc n) e inputDir (earlier @ rest) registered partials seeds tr = Some (Inl err)"
  using assms(1)
proof (induction earlier arbitrary: registered partials seeds tr)
  case Nil
  then show ?case using assms(2) by simp
next
  case (Cons item earlier)
  from Cons.prems obtain body childrenSeeds childrenPartials seeds' tr' seeds2 out where
    s: "readFileSync e (pathResolve e [inputDir, group1 item]) = Some body"
      "loadSeeds e body (pathDirname e (pathResolve e [inputDir, group1 item]))
        = Some (Inr childrenSeeds)"
      "loadPartials n e (rewriteSource body) seeds
          (pathDirname e (pathResolve e [inputDir, group1 item])) tr
        = Some (Inr (childrenPartials, seeds', tr'))"
      "merge seeds' childrenSeeds = Some seeds2"
      "render e (assignAll childrenPartials registered) (cleanupSource (rewriteSource body))
          seeds2 = Inr out"
    and r: "partialsLoop (Suc n) e inputDir earlier (assignAll childrenPartials registered)
          (AList.update (group1 item) out (assignAll childrenPartials partials))
          seeds2
          (tr' @ [(group1 item, pathResolve e [inputDir, group1 item], out)])
        = Some (Inr (partials1, seeds1, tr1))"
    by (simp del: loadPartials.simps add: Let_def split: option.splits sum.splits prod.splits)
  from Cons.IH[OF r] s show ?case
    by (simp del: loadPartials.simps)
qed

lemma failed_walk_aborts_read:
  assumes "readInput e input = Inr (source, inputDir)"
    and "loadSeeds e (rewriteSource source) inputDir = Some (Inr seeds)"
    and "loadPartials n e (rewriteSource source) seeds inputDir [] = Some (Inl err)"
  shows "read n e input = Some (Inl err)"
  using assms by (simp add: read_def rewriteInput_def del: loadPartials.simps)

text \<open>
  C9. \<open>loadPartials\<close> hands the text of a partial file to \<open>loadSeeds\<close> as it was read,
  not the rewritten text, so a seed directive in the helper spelling in a partial file
  is not seen: its file is never read, and a missing file raises nothing. Here
  \<open>part.txt\<close> names the missing \<open>missing.json\<close> in the helper spelling; resolving the
  root that refers to it returns the rendered text. The same file resolved as a root
  fails with the not-found error; so does a root over a partial with the comment
  spelling, at one level and at two; and the dependency walk, which reads the
  rewritten text, lists the seed file of \<open>part.txt\<close>.
\<close>

theorem helper_seed_in_partial_not_loaded:
  \<open>read 1 (nodeEnv ''/docs'' helperSeedFiles) ''root.txt''
       = Some (Inr ''Root: Body\<newline>\<newline>'')
   \<and> readFileSync (nodeEnv ''/docs'' helperSeedFiles) ''/docs/part.txt''
       = Some ''{{seed "missing.json"}}Body''
   \<and> readFileSync (nodeEnv ''/docs'' helperSeedFiles) ''/docs/missing.json'' = None
   \<and> extractSeeds ''{{seed "missing.json"}}Body'' = []
   \<and> map group1 (extractSeeds (rewriteSource ''{{seed "missing.json"}}Body'')) = [''missing.json'']
   \<and> read 0 (nodeEnv ''/docs'' helperSeedFiles) ''part.txt''
       = Some (Inl (NotFound ''/docs/missing.json''))
   \<and> read 1 (nodeEnv ''/docs'' helperSeedFiles) ''root2.txt''
       = Some (Inl (NotFound ''/docs/missing.json''))
   \<and> read 2 (nodeEnv ''/docs'' helperSeedFiles) ''root3.txt''
       = Some (Inl (NotFound ''/docs/sub/missing.json''))
   \<and> extractPaths 1 (nodeEnv ''/docs'' helperSeedFiles) ''root.txt''
       = Some (Inr [''/docs/root.txt'', ''/docs/missing.json'', ''/docs/part.txt''])\<close>
  by code_simp

lemma partialsLoop_more_fuel:
  "partialsLoop n e inputDir items registered partials seeds tr = Some r \<Longrightarrow>
   partialsLoop (Suc n) e inputDir items registered partials seeds tr = Some r"
proof (induction n arbitrary: inputDir items registered partials seeds tr r)
  case 0
  then show ?case by (cases items) simp_all
next
  case (Suc n)
  have lp: "loadPartials (Suc n) e source seeds dir tr = Some r"
    if "loadPartials n e source seeds dir tr = Some r" for source seeds dir tr r
    using that Suc.IH by simp
  from Suc.prems show ?case
  proof (induction items arbitrary: registered partials seeds tr)
    case Nil
    then show ?case by simp
  next
    case (Cons item items)
    let ?file = "pathResolve e [inputDir, group1 item]"
    show ?case
    proof (cases "readFileSync e ?file")
      case None
      with Cons.prems show ?thesis by simp
    next
      case (Some source)
      show ?thesis
      proof (cases "loadSeeds e source (pathDirname e ?file)")
        case None
        with Some Cons.prems show ?thesis by simp
      next
        case ls: (Some rs)
        show ?thesis
        proof (cases rs)
          case (Inl err)
          with Some ls Cons.prems show ?thesis by simp
        next
          case (Inr childrenSeeds)
          show ?thesis
          proof (cases "loadPartials n e (rewriteSource source) seeds (pathDirname e ?file) tr")
            case None
            with Some ls Inr Cons.prems show ?thesis by (simp del: loadPartials.simps)
          next
            case child: (Some rc)
            note child' = lp[OF child]
            show ?thesis
            proof (cases rc)
              case (Inl err)
              with Some ls \<open>rs = Inr childrenSeeds\<close> child child' Cons.prems show ?thesis
                by (auto simp del: loadPartials.simps)
            next
              case rcv: (Inr v)
              obtain cps seeds1 tr1 where v: "v = (cps, seeds1, tr1)" by (cases v)
              show ?thesis
              proof (cases "merge seeds1 childrenSeeds")
                case None
                with Some ls Inr child child' rcv v Cons.prems show ?thesis
                  by (auto simp del: loadPartials.simps)
              next
                case mg: (Some seeds2)
                show ?thesis
                proof (cases "render e (assignAll cps registered) (cleanupSource (rewriteSource source))
                                seeds2")
                  case (Inl err)
                  with Some ls \<open>rs = Inr childrenSeeds\<close> child child' rcv v mg Cons.prems show ?thesis
                    by (auto simp del: loadPartials.simps)
                next
                  case out: (Inr out)
                  from Some ls Inr child rcv v mg out Cons.prems
                  have "partialsLoop (Suc n) e inputDir items (assignAll cps registered)
                          (AList.update (group1 item) out (assignAll cps partials))
                          seeds2 (tr1 @ [(group1 item, ?file, out)]) = Some r"
                    by (simp del: loadPartials.simps)
                  from Cons.IH[OF this] Some ls Inr child' rcv v mg out show ?thesis
                    by (simp del: loadPartials.simps)
                qed
              qed
            qed
          qed
        qed
      qed
    qed
  qed
qed

lemma loadPartials_more_fuel:
  "loadPartials n e source seeds inputDir tr = Some r \<Longrightarrow>
   loadPartials (Suc n) e source seeds inputDir tr = Some r"
  using partialsLoop_more_fuel by simp



lemma read_more_fuel:
  "read n e input = Some r \<Longrightarrow> read (Suc n) e input = Some r"
proof -
  assume a: "read n e input = Some r"
  show ?thesis
  proof (cases "readInput e input")
    case (Inl err)
    with a show ?thesis by (simp add: read_def)
  next
    case (Inr si)
    obtain source inputDir where si: "si = (source, inputDir)" by (cases si)
    show ?thesis
    proof (cases "loadSeeds e (rewriteSource source) inputDir")
      case None
      with a Inr si show ?thesis by (simp add: read_def rewriteInput_def)
    next
      case ls: (Some rs)
      show ?thesis
      proof (cases rs)
        case (Inl err)
        with a Inr si ls show ?thesis by (simp add: read_def rewriteInput_def)
      next
        case seeds: (Inr seeds)
        from a \<open>readInput e input = Inr si\<close> si ls seeds obtain rl where
          l: "loadPartials n e (rewriteSource source) seeds inputDir [] = Some rl"
          by (cases "loadPartials n e (rewriteSource source) seeds inputDir []")
             (simp_all add: read_def rewriteInput_def del: loadPartials.simps)
        from loadPartials_more_fuel[OF l] l a \<open>readInput e input = Inr si\<close> si ls seeds show ?thesis
          by (simp add: read_def rewriteInput_def del: loadPartials.simps)
      qed
    qed
  qed
qed

lemma rewriteInput_resolveWalk:
  "rewriteInput n e source inputDir
   = (case resolveWalk n e source inputDir of
        None \<Rightarrow> None
      | Some (Inl err) \<Rightarrow> Some (Inl err)
      | Some (Inr (partials, seeds, tr)) \<Rightarrow>
          Some (render e (assignAll partials []) (cleanupSource (rewriteSource source)) seeds))"
  by (simp add: rewriteInput_def resolveWalk_def Let_def split: option.splits sum.splits)

text \<open>
  C1. In the example the root's seed does not win on the overlapping key: the seeds of the
  child are merged into the shared context after the root's, so the context holds
  \<open>x = 2\<close> and the child renders with it.
\<close>

theorem example_root_seed_loses_counterexample:
  "map_of (contextOf (resolveWalk 1 (nodeEnv ''/docs'' exampleFiles)
       ''<!-- seed(a.json) -->\<newline>{{> child.txt}}'' ''/docs'')) ''x'' = Some (JNum 2)
   \<and> map_of (partialsOf (resolveWalk 1 (nodeEnv ''/docs'' exampleFiles)
       ''<!-- seed(a.json) -->\<newline>{{> child.txt}}'' ''/docs'')) ''child.txt''
       = Some ''Hello 2\<newline>''
   \<and> Some (JNum 2) \<noteq> Some (JNum 1) \<and> ''Hello 2\<newline>'' \<noteq> ''Hello 1''"
  by code_simp

text \<open>
  C1, as amended. In the example the resolve operation builds the merged context
  \<open>{x: 2, y: 1, z: 2}\<close>, the child's seed value standing under the overlapping key,
  and the child partial renders as \<open>Hello 2\<close> followed by the newline the normalizer
  appends; the root's own seeds alone are \<open>{x: 1, y: 1}\<close>.
\<close>

theorem example_child_seed_wins:
  "loadSeeds (nodeEnv ''/docs'' exampleFiles)
       (rewriteSource ''<!-- seed(a.json) -->\<newline>{{> child.txt}}'') ''/docs''
     = Some (Inr (JObj False [(''x'', JNum 1), (''y'', JNum 1)]))
   \<and> resolveWalk 1 (nodeEnv ''/docs'' exampleFiles)
       ''<!-- seed(a.json) -->\<newline>{{> child.txt}}'' ''/docs''
     = Some (Inr ([(''child.txt'', ''Hello 2\<newline>'')],
                  JObj False [(''x'', JNum 2), (''y'', JNum 1), (''z'', JNum 2)],
                  [(''child.txt'', ''/docs/child.txt'', ''Hello 2\<newline>'')]))"
  by code_simp

















lemma Inr_map_sum_id: "(Inr y = map_sum id f x) = (\<exists>z. x = Inr z \<and> y = f z)"
  by (cases x) auto



lemma childrenLoop_Nil_any: "childrenLoop n e inputDir [] children = Some (Inr children)"
  by (cases n) simp_all












end
